theory Spec2Isabelle
  imports Main "HOL-Library.Sublist" "HOL-Library.AList"
begin

section \<open>JavaScript strings and arrays\<close>

text \<open>
  A JavaScript string is modelled as a \<open>string\<close> (a list of characters). The operations
  the program uses on strings (\<open>split\<close>, \<open>startsWith\<close>, \<open>===\<close>, literal search) only
  compare code units for equality, so they read the same on a list of characters.
\<close>

text \<open>\<open>s.split(sep)\<close> for a one-character separator: always at least one piece.\<close>

fun js_split :: "char \<Rightarrow> string \<Rightarrow> string list" where
  "js_split sep [] = [[]]"
| "js_split sep (c # cs) =
     (if c = sep then [] # js_split sep cs
      else (case js_split sep cs of
              [] \<Rightarrow> [[c]]
            | piece # pieces \<Rightarrow> (c # piece) # pieces))"

text \<open>\<open>xs[i]\<close>: reading past the end of an array gives \<open>undefined\<close>, here \<open>None\<close>.\<close>

fun js_index :: "'a list \<Rightarrow> nat \<Rightarrow> 'a option" where
  "js_index [] i = None"
| "js_index (x # xs) 0 = Some x"
| "js_index (x # xs) (Suc i) = js_index xs i"

text \<open>\<open>email.split("@")[1]\<close>, the expression the filter compares with the domain.\<close>

definition emailDomain :: "string \<Rightarrow> string option" where
  "emailDomain email = js_index (js_split (CHR ''@'') email) 1"

section \<open>Directory users and the CLIENT configuration\<close>

text \<open>
  A directory user, with the four fields the filter reads. The Directory API sends all
  four for every user; \<open>archived\<close> and \<open>suspended\<close> are only tested for truthiness.
\<close>

record user =
  primaryEmail :: string
  orgUnitPath :: string
  archived :: bool
  suspended :: bool

text \<open>
  \<open>CONFIG.CLIENT\<close>. The three fields that \<open>validateConfig\<close> requires are optional here
  (\<open>None\<close> is \<open>undefined\<close>, a field that is not set). A list that is not set behaves as
  the empty list in every test the filter makes (\<open>xs && xs.length > 0\<close>), so the three
  lists are plain lists.
\<close>

record client =
  searchDomain :: "string option"
  adminEmail :: "string option"
  defaultTemplateId :: "string option"
  includedUsers :: "string list"
  excludedUsers :: "string list"
  excludedOUs :: "string list"
  includeArchived :: bool
  includeSuspended :: bool

section \<open>UserFilterService\<close>

text \<open>
  \<open>_shouldIncludeUser(user)\<close>, test by test in the order of the source.
  \<open>startsWith\<close> is \<open>prefix\<close>; \<open>includes\<close> is list membership; \<open>some\<close> is \<open>list_ex\<close>.
  The comparison \<open>!==\<close> of the domain is between two possibly undefined strings.
\<close>

definition shouldIncludeUser :: "client \<Rightarrow> user \<Rightarrow> bool" where
  "shouldIncludeUser config u =
     (if \<not> includeArchived config \<and> archived u then False
      else if \<not> includeSuspended config \<and> suspended u then False
      else if emailDomain (primaryEmail u) \<noteq> searchDomain config then False
      else if includedUsers config \<noteq> [] then primaryEmail u \<in> set (includedUsers config)
      else if excludedUsers config \<noteq> [] \<and> primaryEmail u \<in> set (excludedUsers config)
        then False
      else if excludedOUs config \<noteq> []
              \<and> list_ex (\<lambda>ou. prefix ou (orgUnitPath u)) (excludedOUs config)
        then False
      else True)"

text \<open>\<open>_filterUsers(users)\<close>: \<open>users.filter(...).map(user => user.primaryEmail)\<close>.\<close>

definition filterUsers :: "client \<Rightarrow> user list \<Rightarrow> string list" where
  "filterUsers config us = map primaryEmail (filter (shouldIncludeUser config) us)"

section \<open>The configuration and validateConfig\<close>

text \<open>
  \<open>CONFIG.API\<close> and \<open>CONFIG.EXECUTION\<close>. The numbers of the configuration are integers;
  \<open>None\<close> is a field that is not set.
\<close>

record api =
  BATCH_SIZE :: "int option"
  BATCH_DELAY :: "int option"
  RETRY_ATTEMPTS :: "int option"
  RETRY_DELAY :: "int option"

record execution =
  dryRun :: bool
  verbose :: bool

text \<open>The whole configuration object; each of its three sections may be absent.\<close>

record config =
  CLIENT :: "client option"
  API :: "api option"
  EXECUTION :: "execution option"

text \<open>The values a required path can hold, and JavaScript's truthiness of them.\<close>

datatype jsval = Undefined | Str string | Num int

fun truthy :: "jsval \<Rightarrow> bool" where
  "truthy Undefined = False"
| "truthy (Str s) = (s \<noteq> [])"
| "truthy (Num n) = (n \<noteq> 0)"

definition strVal :: "string option \<Rightarrow> jsval" where
  "strVal v = (case v of None \<Rightarrow> Undefined | Some s \<Rightarrow> Str s)"

definition numVal :: "int option \<Rightarrow> jsval" where
  "numVal v = (case v of None \<Rightarrow> Undefined | Some n \<Rightarrow> Num n)"

text \<open>
  \<open>path.split(".").reduce((obj, key) => obj?.[key], config)\<close> at the seven paths
  that \<open>validateConfig\<close> looks up; a missing section gives \<open>undefined\<close>.
\<close>

definition clientField :: "config \<Rightarrow> (client \<Rightarrow> string option) \<Rightarrow> jsval" where
  "clientField cfg f = (case CLIENT cfg of None \<Rightarrow> Undefined | Some c \<Rightarrow> strVal (f c))"

definition apiField :: "config \<Rightarrow> (api \<Rightarrow> int option) \<Rightarrow> jsval" where
  "apiField cfg f = (case API cfg of None \<Rightarrow> Undefined | Some a \<Rightarrow> numVal (f a))"

definition getPath :: "config \<Rightarrow> string \<Rightarrow> jsval" where
  "getPath cfg path =
     (if path = ''CLIENT.searchDomain'' then clientField cfg searchDomain
      else if path = ''CLIENT.adminEmail'' then clientField cfg adminEmail
      else if path = ''CLIENT.defaultTemplateId'' then clientField cfg defaultTemplateId
      else if path = ''API.BATCH_SIZE'' then apiField cfg BATCH_SIZE
      else if path = ''API.BATCH_DELAY'' then apiField cfg BATCH_DELAY
      else if path = ''API.RETRY_ATTEMPTS'' then apiField cfg RETRY_ATTEMPTS
      else if path = ''API.RETRY_DELAY'' then apiField cfg RETRY_DELAY
      else Undefined)"

definition required :: "string list" where
  "required =
     [''CLIENT.searchDomain'', ''CLIENT.adminEmail'', ''CLIENT.defaultTemplateId'',
      ''API.BATCH_SIZE'', ''API.BATCH_DELAY'', ''API.RETRY_ATTEMPTS'', ''API.RETRY_DELAY'']"

text \<open>The loop over \<open>required\<close>: the first path whose value is falsy, if any.\<close>

fun firstMissing :: "config \<Rightarrow> string list \<Rightarrow> string option" where
  "firstMissing cfg [] = None"
| "firstMissing cfg (path # paths) =
     (if \<not> truthy (getPath cfg path) then Some path else firstMissing cfg paths)"

text \<open>\<open>x < k\<close> on a number that may be undefined (\<open>undefined < k\<close> is false).\<close>

definition js_lt :: "int option \<Rightarrow> int \<Rightarrow> bool" where
  "js_lt x k = (case x of None \<Rightarrow> False | Some n \<Rightarrow> n < k)"

text \<open>The four range checks that follow the loop: the message thrown, if any.\<close>

definition rangeChecks :: "api \<Rightarrow> string option" where
  "rangeChecks a =
     (if js_lt (BATCH_SIZE a) 1 then Some ''BATCH_SIZE must be at least 1''
      else if js_lt (BATCH_DELAY a) 0 then Some ''BATCH_DELAY must be non-negative''
      else if js_lt (RETRY_ATTEMPTS a) 0 then Some ''RETRY_ATTEMPTS must be non-negative''
      else if js_lt (RETRY_DELAY a) 0 then Some ''RETRY_DELAY must be non-negative''
      else None)"

text \<open>A thrown \<open>Error\<close>, with its message.\<close>

datatype error = Error string

text \<open>
  \<open>validateConfig(config)\<close>: the presence loop, the range checks, then the default for
  \<open>EXECUTION\<close>; the configuration is returned. Reading \<open>config.API.BATCH_SIZE\<close> when
  the section is absent would be a TypeError, which the loop has excluded by then.
\<close>

definition validateConfig :: "config \<Rightarrow> error + config" where
  "validateConfig cfg =
     (case firstMissing cfg required of
        Some path \<Rightarrow> Inl (Error (''Missing required config: '' @ path))
      | None \<Rightarrow>
          (case API cfg of
             None \<Rightarrow> Inl (Error ''TypeError: Cannot read properties of undefined'')
           | Some a \<Rightarrow>
               (case rangeChecks a of
                  Some msg \<Rightarrow> Inl (Error msg)
                | None \<Rightarrow>
                    Inr (cfg\<lparr>EXECUTION :=
                           Some (case EXECUTION cfg of
                                   None \<Rightarrow> \<lparr>dryRun = False, verbose = False\<rparr>
                                 | Some e \<Rightarrow> e)\<rparr>))))"

text \<open>
  The configured domain is empty or unset: the section or the field is missing, or the
  field is the empty string.
\<close>

definition domainUnset :: "config \<Rightarrow> bool" where
  "domainUnset cfg =
     (case CLIENT cfg of
        None \<Rightarrow> True
      | Some c \<Rightarrow> (case searchDomain c of None \<Rightarrow> True | Some d \<Rightarrow> d = []))"

section \<open>TemplateManager.applyTemplate\<close>

text \<open>
  \<open>String.prototype.replace\<close> expands dollar patterns in the replacement string. With
  a regular expression that has no capture group the patterns that expand are
  \<open>$$\<close> (a dollar), \<open>$&\<close> (the match), \<open>$`\<close> (the text before the match) and \<open>$'\<close>
  (the text after it); \<open>$1\<close> and every other pair stay as written.
\<close>

fun getSubstitution :: "string \<Rightarrow> string \<Rightarrow> string \<Rightarrow> string \<Rightarrow> string" where
  "getSubstitution matched preceding following [] = []"
| "getSubstitution matched preceding following [c] = [c]"
| "getSubstitution matched preceding following (c # d # r) =
     (if c = CHR ''$'' \<and> d = CHR ''$'' then CHR ''$'' # getSubstitution matched preceding following r
      else if c = CHR ''$'' \<and> d = CHR ''&'' then matched @ getSubstitution matched preceding following r
      else if c = CHR ''$'' \<and> d = CHR 0x60 then preceding @ getSubstitution matched preceding following r
      else if c = CHR ''$'' \<and> d = CHR 0x27 then following @ getSubstitution matched preceding following r
      else c # getSubstitution matched preceding following (d # r))"

text \<open>
  \<open>s.replace(new RegExp(escaped, "g"), replacement)\<close>, where \<open>escaped\<close> is the
  placeholder with every regular-expression metacharacter escaped, so that the pattern
  matches the placeholder's characters and nothing else. The scan goes left to right;
  after a match it goes on behind the match, and the text put in is not scanned again.
  \<open>seen\<close> is the part of the subject already passed. The empty pattern matches once at
  every position, the end included.
\<close>

function replaceGlobal :: "string \<Rightarrow> string \<Rightarrow> string \<Rightarrow> string \<Rightarrow> string" where
  "replaceGlobal pat replacement seen s =
     (if pat = [] then
        (case s of
           [] \<Rightarrow> getSubstitution [] seen [] replacement
         | c # cs \<Rightarrow> getSubstitution [] seen s replacement
                      @ c # replaceGlobal pat replacement (seen @ [c]) cs)
      else
        (case s of
           [] \<Rightarrow> []
         | c # cs \<Rightarrow>
             if prefix pat s
             then getSubstitution pat seen (drop (length pat) s) replacement
                    @ replaceGlobal pat replacement (seen @ pat) (drop (length pat) s)
             else c # replaceGlobal pat replacement (seen @ [c]) cs))"
  by pat_completeness auto
termination
  by (relation "measure (\<lambda>(pat, replacement, seen, s). length s)") auto

text \<open>
  \<open>value.replace(/\'([^\']+)\'/g, '"$1"')\<close>: a single quote, one or more characters
  that are not single quotes, and a single quote become the same characters between
  double quotes. A quote that opens no such group is copied and the scan moves on by one.
\<close>

definition squote :: char where
  "squote = CHR 0x27"

definition dquote :: char where
  "dquote = CHR 0x22"

function fontQuotes :: "string \<Rightarrow> string" where
  "fontQuotes [] = []"
| "fontQuotes (c # cs) =
     (if c = squote \<and> takeWhile (\<lambda>x. x \<noteq> squote) cs \<noteq> []
           \<and> dropWhile (\<lambda>x. x \<noteq> squote) cs \<noteq> []
      then dquote # takeWhile (\<lambda>x. x \<noteq> squote) cs
             @ dquote # fontQuotes (tl (dropWhile (\<lambda>x. x \<noteq> squote) cs))
      else c # fontQuotes cs)"
  by pat_completeness auto
termination
proof (relation "measure length")
  show "wf (measure length)" by simp
next
  fix c :: char and cs :: string
  have "length (tl (dropWhile (\<lambda>x. x \<noteq> squote) cs)) \<le> length cs"
    using length_dropWhile_le [of "\<lambda>x. x \<noteq> squote" cs] by simp
  then show "(tl (dropWhile (\<lambda>x. x \<noteq> squote) cs), c # cs) \<in> measure length"
    by simp
next
  fix c :: char and cs :: string
  show "(cs, c # cs) \<in> measure length" by simp
qed

text \<open>
  One entry \<open>[placeholder, value]\<close> of \<open>Object.entries(values)\<close>. A value that is not
  provided is \<open>None\<close>. \<open>substituted\<close> is the string handed to \<open>replace\<close>: the font family
  with its quotes rewritten when the placeholder is \<open>{PrimaryFont}\<close> and the value is
  truthy, and \<open>value || ""\<close> otherwise.
\<close>

definition substituted :: "string \<Rightarrow> string option \<Rightarrow> string" where
  "substituted placeholder v =
     (case v of
        None \<Rightarrow> []
      | Some s \<Rightarrow> if placeholder = ''{PrimaryFont}'' \<and> s \<noteq> [] then fontQuotes s else s)"

definition applyEntry :: "string \<Rightarrow> string \<times> string option \<Rightarrow> string" where
  "applyEntry processedTemplate entry =
     replaceGlobal (fst entry) (substituted (fst entry) (snd entry)) [] processedTemplate"

text \<open>
  \<open>applyTemplate(template, values)\<close>: the entries of \<open>values\<close> in their order, each
  applied to the text the entries before it have produced.
\<close>

definition applyTemplate :: "string \<Rightarrow> (string \<times> string option) list \<Rightarrow> string" where
  "applyTemplate template vals = foldl applyEntry template vals"

section \<open>The directory fetch\<close>

text \<open>
  What the program reads of the body of a directory response after \<open>JSON.parse\<close>:
  \<open>data.users\<close>. The body of the Directory API also carries \<open>nextPageToken\<close> when
  more users follow; the field is part of the record so that the model shows whether
  the program reads it.
\<close>

record directoryData =
  users :: "user list option"
  nextPageToken :: "string option"

text \<open>
  A response of \<open>UrlFetchApp.fetch\<close>: \<open>getResponseCode()\<close>, \<open>getContentText()\<close>, and
  what \<open>JSON.parse\<close> makes of the text: \<open>Inl\<close> when it throws, \<open>Inr None\<close> when the
  text is \<open>null\<close>, and otherwise the value with its field \<open>users\<close> (\<open>None\<close> when the
  value has no such field or a falsy one; an array of directory users otherwise, as
  the Directory API sends it).
\<close>

record response =
  responseCode :: int
  contentText :: string
  parsed :: "error + directoryData option"

text \<open>
  What \<open>JSON.parse\<close> makes of the service account key when it does not throw: \<open>null\<close>,
  another falsy value (\<open>0\<close>, \<open>false\<close>, the empty string), or a truthy value (the
  object of a key file). Reading a property of \<open>null\<close> throws; reading one of the other
  values does not.
\<close>

datatype keyJson = KeyNull | KeyFalsy | KeyTruthy

text \<open>The message of the TypeError thrown when a property of \<open>null\<close> is read.\<close>

definition nullRead :: "string \<Rightarrow> string" where
  "nullRead field =
     ''Cannot read properties of null (reading '' @ CHR 0x27 # field @ [CHR 0x27, CHR '')'']"

text \<open>
  The services of the platform the run depends on: the script property
  \<open>SERVICE_ACCOUNT_KEY\<close>, what \<open>JSON.parse\<close> makes of it (\<open>Inl\<close> when it throws; read
  only when the property is a non-empty string), the OAuth2 service (\<open>hasAccess()\<close>,
  \<open>getLastError()\<close> as it prints in a message, \<open>getAccessToken()\<close>; it answers every
  call of a run alike) and \<open>UrlFetchApp.fetch\<close> (url and Authorization header; \<open>Inl\<close>
  when the call itself throws).
\<close>

record env =
  scriptKey :: "string option"
  parsedKey :: "error + keyJson"
  oauthAccess :: bool
  lastError :: string
  accessToken :: string
  urlFetch :: "string \<Rightarrow> string \<Rightarrow> error + response"

text \<open>A template literal prints an undefined value as the word \<open>undefined\<close>.\<close>

definition shown :: "string option \<Rightarrow> string" where
  "shown v = (case v of None \<Rightarrow> ''undefined'' | Some s \<Rightarrow> s)"

definition usersUrl :: "client \<Rightarrow> string" where
  "usersUrl c =
     ''https://admin.googleapis.com/admin/directory/v1/users?domain=''
       @ shown (searchDomain c) @ ''&maxResults=500&projection=full''"

text \<open>
  \<open>_fetchUsers(service)\<close>. The result comes with the list of the urls fetched, in
  order, so that the number of requests is part of what the function returns.
\<close>

definition fetchUsers :: "env \<Rightarrow> client \<Rightarrow> (error + user list) \<times> string list" where
  "fetchUsers e c =
     (case urlFetch e (usersUrl c) (''Bearer '' @ accessToken e) of
        Inl err \<Rightarrow> (Inl err, [usersUrl c])
      | Inr resp \<Rightarrow>
          if responseCode resp \<noteq> 200
          then (Inl (Error (''Failed to fetch users: '' @ contentText resp)), [usersUrl c])
          else (case parsed resp of
                  Inl err \<Rightarrow> (Inl err, [usersUrl c])
                | Inr None \<Rightarrow> (Inl (Error (nullRead ''users'')), [usersUrl c])
                | Inr (Some d) \<Rightarrow>
                    (Inr (case users d of None \<Rightarrow> [] | Some us \<Rightarrow> us), [usersUrl c])))"

text \<open>
  The constructor of \<open>AuthService\<close> keeps \<open>keyStr ? JSON.parse(keyStr) : null\<close>, and
  nothing when \<open>JSON.parse\<close> throws (the exception is caught). \<open>getAdminService()\<close>
  tests \<open>!this.serviceAccountKey\<close> and throws when the key kept is falsy: when the
  property is missing or empty, when it does not parse, and when it parses to \<open>null\<close>
  or to another falsy value.
\<close>

definition keyAvailable :: "env \<Rightarrow> bool" where
  "keyAvailable e =
     (case scriptKey e of
        None \<Rightarrow> False
      | Some k \<Rightarrow> k \<noteq> [] \<and> parsedKey e = Inr KeyTruthy)"

text \<open>\<open>AuthService.hasAccess()\<close>: any exception inside is caught and gives \<open>false\<close>.\<close>

definition authHasAccess :: "env \<Rightarrow> bool" where
  "authHasAccess e = (keyAvailable e \<and> oauthAccess e)"

text \<open>\<open>getAllowedUsers()\<close>: the access check, the fetch, then the filter.\<close>

definition getAllowedUsers :: "env \<Rightarrow> client \<Rightarrow> (error + string list) \<times> string list" where
  "getAllowedUsers e c =
     (if \<not> keyAvailable e then (Inl (Error ''Service account key is not available''), [])
      else if \<not> oauthAccess e
        then (Inl (Error (''Admin service access denied: '' @ lastError e)), [])
      else (case fetchUsers e c of
              (Inl err, urls) \<Rightarrow> (Inl err, urls)
            | (Inr us, urls) \<Rightarrow> (Inr (filterUsers c us), urls)))"

section \<open>The synchronization pipeline\<close>

text \<open>
  Modelled from the spec: the class \<open>SignatureService\<close>, whose \<open>processUsers\<close> is the
  pipeline's \<open>run(identities, dryRun)\<close>, and what it calls: the rendering of an
  identity's signature, the change detector and the mailbox-settings and credential
  providers. \<open>runSignatureManager\<close>, \<open>testSignatureUpdate\<close> and \<open>testDryRun\<close> construct
  the service and call \<open>processUsers\<close>; the class itself is not among the files. Every
  definition of this section follows sections 3, 4.4, 6 and 7 of the specification.
\<close>

text \<open>
  Modelled from the spec: the error of a write. A network error and a rate-limit or
  5xx-class response are retryable; every other response is not.
\<close>

datatype writeError = NetworkError string | RemoteError nat string

text \<open>
  Modelled from the spec: which errors of a write are retried (section 4.4).
\<close>

fun retryable :: "writeError \<Rightarrow> bool" where
  "retryable (NetworkError msg) = True"
| "retryable (RemoteError code msg) = (code = 429 \<or> (500 \<le> code \<and> code < 600))"

text \<open>Modelled from the spec: the message of an error, the reason of a failure.\<close>

fun errorMessage :: "writeError \<Rightarrow> string" where
  "errorMessage (NetworkError msg) = msg"
| "errorMessage (RemoteError code msg) = msg"

text \<open>
  Modelled from the spec: the collaborators of section 6, over a state \<open>'w\<close> of the
  remote mailboxes. \<open>renderSignature\<close> is the desired content of an identity (the
  resolved template rendered with the identity's context), \<open>needsUpdate\<close> the change
  detector. Reading does not change the remote state; a write may.
\<close>

record 'w provider =
  renderSignature :: "string \<Rightarrow> string"
  needsUpdate :: "string \<Rightarrow> string \<Rightarrow> bool"
  readSignature :: "'w \<Rightarrow> string \<Rightarrow> string"
  acquireWriteCredential :: "'w \<Rightarrow> string \<Rightarrow> bool"
  writeSignature :: "'w \<Rightarrow> string \<Rightarrow> string \<Rightarrow> writeError option \<times> 'w"

text \<open>
  Modelled from the spec: the calls the pipeline makes to its collaborators and the
  delays it observes, recorded in order.
\<close>

datatype call =
    ReadSignature string
  | AcquireWriteCredential string
  | WriteSignature string string
  | Sleep nat

text \<open>Modelled from the spec: the outcome of one identity (\<open>SyncOutcome\<close>).\<close>

datatype syncOutcome = Processed | Skipped | Failed string

text \<open>
  Modelled from the spec: the result of a run,
  \<open>{ processed: [email], skipped: [email], failed: { email: reason } }\<close>. The \<open>failed\<close>
  bucket is an object keyed by email (the callers count it with
  \<open>Object.keys(result.failed).length\<close>), here a list of pairs in the order of insertion
  with one pair per key.
\<close>

record result =
  processed :: "string list"
  skipped :: "string list"
  failed :: "(string \<times> string) list"

text \<open>Modelled from the spec: the result before any identity is resolved.\<close>

definition emptyResult :: result where
  "emptyResult = \<lparr>processed = [], skipped = [], failed = []\<rparr>"

text \<open>
  Modelled from the spec: an outcome added to the result. Storing a reason under a key
  of \<open>failed\<close> that is already there replaces the reason and adds no entry.
\<close>

fun addOutcome :: "string \<Rightarrow> syncOutcome \<Rightarrow> result \<Rightarrow> result" where
  "addOutcome email Processed res = res\<lparr>processed := processed res @ [email]\<rparr>"
| "addOutcome email Skipped res = res\<lparr>skipped := skipped res @ [email]\<rparr>"
| "addOutcome email (Failed reason) res =
     res\<lparr>failed := AList.update email reason (failed res)\<rparr>"

text \<open>
  Modelled from the spec: a write with its retries. A retryable failure is tried again
  after \<open>RETRY_DELAY\<close>, at most \<open>RETRY_ATTEMPTS\<close> more times; when the budget is used up,
  or at once when the failure is not retryable, the last error's message is the reason.
  The first argument is the number of retries left.
\<close>

fun writeWithRetry ::
  "nat \<Rightarrow> 'w provider \<Rightarrow> nat \<Rightarrow> string \<Rightarrow> string \<Rightarrow> 'w \<Rightarrow> string option \<times> 'w \<times> call list"
where
  "writeWithRetry 0 p delay email content w =
     (case writeSignature p w email content of
        (None, w') \<Rightarrow> (None, w', [WriteSignature email content])
      | (Some err, w') \<Rightarrow> (Some (errorMessage err), w', [WriteSignature email content]))"
| "writeWithRetry (Suc k) p delay email content w =
     (case writeSignature p w email content of
        (None, w') \<Rightarrow> (None, w', [WriteSignature email content])
      | (Some err, w') \<Rightarrow>
          if retryable err
          then (case writeWithRetry k p delay email content w' of
                  (r, w'', calls) \<Rightarrow>
                    (r, w'', WriteSignature email content # Sleep delay # calls))
          else (Some (errorMessage err), w', [WriteSignature email content]))"

text \<open>
  Modelled from the spec: one identity. Read the current content, render the desired
  one, compare. Unchanged: skipped. Changed in a dry run: processed, with no write.
  Changed otherwise: the write credential is acquired (a denial fails the identity at
  once), then the write is attempted.
\<close>

definition processIdentity ::
  "'w provider \<Rightarrow> bool \<Rightarrow> nat \<Rightarrow> nat \<Rightarrow> string \<Rightarrow> 'w \<Rightarrow> syncOutcome \<times> 'w \<times> call list"
where
  "processIdentity p dry retries delay email w =
     (if \<not> needsUpdate p (readSignature p w email) (renderSignature p email)
        then (Skipped, w, [ReadSignature email])
      else if dry then (Processed, w, [ReadSignature email])
      else if \<not> acquireWriteCredential p w email
        then (Failed ''Access denied'', w, [ReadSignature email, AcquireWriteCredential email])
      else (case writeWithRetry retries p delay email (renderSignature p email) w of
              (None, w', calls) \<Rightarrow>
                (Processed, w', ReadSignature email # AcquireWriteCredential email # calls)
            | (Some reason, w', calls) \<Rightarrow>
                (Failed reason, w',
                 ReadSignature email # AcquireWriteCredential email # calls)))"

text \<open>
  Modelled from the spec: a batch, its identities one after the other, each outcome
  added to the result as soon as the identity is resolved.
\<close>

fun processBatch ::
  "'w provider \<Rightarrow> bool \<Rightarrow> nat \<Rightarrow> nat \<Rightarrow> string list \<Rightarrow> result \<Rightarrow> 'w
     \<Rightarrow> result \<times> 'w \<times> call list"
where
  "processBatch p dry retries delay [] res w = (res, w, [])"
| "processBatch p dry retries delay (email # emails) res w =
     (case processIdentity p dry retries delay email w of
        (outcome, w', calls) \<Rightarrow>
          (case processBatch p dry retries delay emails (addOutcome email outcome res) w' of
             (res', w'', calls') \<Rightarrow> (res', w'', calls @ calls')))"

text \<open>
  Modelled from the spec: the batches in order, with a sleep of \<open>BATCH_DELAY\<close> after
  each batch but the last.
\<close>

fun runBatches ::
  "'w provider \<Rightarrow> bool \<Rightarrow> nat \<Rightarrow> nat \<Rightarrow> nat \<Rightarrow> string list list \<Rightarrow> result \<Rightarrow> 'w
     \<Rightarrow> result \<times> 'w \<times> call list"
where
  "runBatches p dry retries delay batchDelay [] res w = (res, w, [])"
| "runBatches p dry retries delay batchDelay [b] res w =
     processBatch p dry retries delay b res w"
| "runBatches p dry retries delay batchDelay (b # b' # bs) res w =
     (case processBatch p dry retries delay b res w of
        (res', w', calls) \<Rightarrow>
          (case runBatches p dry retries delay batchDelay (b' # bs) res' w' of
             (res'', w'', calls') \<Rightarrow> (res'', w'', calls @ Sleep batchDelay # calls')))"

text \<open>
  Modelled from the spec: ordered, contiguous batches of at most \<open>n\<close> identities.
\<close>

function batches :: "nat \<Rightarrow> 'a list \<Rightarrow> 'a list list" where
  "batches n xs = (if n = 0 \<or> xs = [] then [] else take n xs # batches n (drop n xs))"
  by pat_completeness auto
termination
  by (relation "measure (\<lambda>(n, xs). length xs)") auto

text \<open>
  Modelled from the spec: a number of the configuration as the pipeline uses it, a
  count or a delay; a number that is missing or negative counts as zero.
\<close>

definition apiNat :: "int option \<Rightarrow> nat" where
  "apiNat v = (case v of None \<Rightarrow> 0 | Some n \<Rightarrow> nat n)"

text \<open>
  Modelled from the spec: \<open>run(identities, dryRun)\<close>. A batch size that is missing or
  below one is a configuration error, which aborts the run before any identity is
  processed; otherwise the run returns the result of its batches.
\<close>

definition processUsers ::
  "'w provider \<Rightarrow> api \<Rightarrow> bool \<Rightarrow> string list \<Rightarrow> 'w \<Rightarrow> (error + result) \<times> 'w \<times> call list"
where
  "processUsers p a dry identities w =
     (if apiNat (BATCH_SIZE a) = 0 then (Inl (Error ''ConfigurationError''), w, [])
      else (case runBatches p dry (apiNat (RETRY_ATTEMPTS a)) (apiNat (RETRY_DELAY a))
                   (apiNat (BATCH_DELAY a)) (batches (apiNat (BATCH_SIZE a)) identities)
                   emptyResult w of
              (res, w', calls) \<Rightarrow> (Inr res, w', calls)))"

section \<open>runSignatureManager\<close>

text \<open>
  What \<open>runSignatureManager()\<close> returns: its \<open>status\<close>, and with \<open>SUCCESS\<close> the
  \<open>dryRun\<close> flag and the result of \<open>processUsers\<close> spread into the object. The duration
  and the timestamp are left out.
\<close>

datatype runStatus = SUCCESS bool result | AUTH_NEEDED | ERROR string

text \<open>
  \<open>runSignatureManager()\<close>, step by step; every exception is caught at the end of the
  function and becomes \<open>ERROR\<close> with the message. After \<open>validateConfig\<close>: the key
  property is read and a missing or empty one is an error; \<open>JSON.parse\<close> of it may
  throw; the log line that follows reads \<open>parsedKey.client_email\<close>, which throws when
  the key parsed to \<open>null\<close>; then \<open>AuthService.hasAccess()\<close> decides between
  \<open>AUTH_NEEDED\<close> and the run proper. Next to the status, the function returns the urls
  fetched from the directory, the calls of the pipeline and the remote state.
\<close>

definition runSignatureManager ::
  "env \<Rightarrow> 'w provider \<Rightarrow> config \<Rightarrow> 'w \<Rightarrow> runStatus \<times> string list \<times> call list \<times> 'w"
where
  "runSignatureManager e p CONFIG w =
     (case validateConfig CONFIG of
        Inl (Error msg) \<Rightarrow> (ERROR msg, [], [], w)
      | Inr cfg \<Rightarrow>
          if scriptKey e = None \<or> scriptKey e = Some []
            then (ERROR ''SERVICE_ACCOUNT_KEY not found in Script Properties'', [], [], w)
          else (case parsedKey e of
             Inl (Error msg) \<Rightarrow> (ERROR msg, [], [], w)
           | Inr key \<Rightarrow>
               if key = KeyNull then (ERROR (nullRead ''client_email''), [], [], w)
               else if \<not> authHasAccess e then (AUTH_NEEDED, [], [], w)
               else (case (CLIENT cfg, API cfg, EXECUTION cfg) of
                  (Some c, Some a, Some x) \<Rightarrow>
                     (case getAllowedUsers e c of
                        (Inl (Error msg), urls) \<Rightarrow> (ERROR msg, urls, [], w)
                      | (Inr allowedUsers, urls) \<Rightarrow>
                          (case processUsers p a (dryRun x) allowedUsers w of
                             (Inl (Error msg), w', calls) \<Rightarrow> (ERROR msg, urls, calls, w')
                           | (Inr res, w', calls) \<Rightarrow>
                               (SUCCESS (dryRun x) res, urls, calls, w')))
                | _ \<Rightarrow> (ERROR ''TypeError: Cannot read properties of undefined'', [], [], w))))"

section \<open>Font-family values\<close>





section \<open>Occurrences of a placeholder\<close>

text \<open>
  \<open>occursIn pat s\<close>: the pattern starts at some position of \<open>s\<close>. \<open>joinWith sep segs\<close>
  is \<open>segs.join(sep)\<close>.
\<close>

fun occursIn :: "string \<Rightarrow> string \<Rightarrow> bool" where
  "occursIn pat [] = (pat = [])"
| "occursIn pat (c # cs) = (prefix pat (c # cs) \<or> occursIn pat cs)"

fun joinWith :: "string \<Rightarrow> string list \<Rightarrow> string" where
  "joinWith sep [] = []"
| "joinWith sep [s] = s"
| "joinWith sep (s # t # ss) = s @ sep @ joinWith sep (t # ss)"

text \<open>
  \<open>segs\<close> are the stretches of a text between the occurrences of \<open>pat\<close> that a scan
  from left to right finds: no occurrence starts inside a stretch that an occurrence
  follows, and none is left in the last stretch.
\<close>

definition splitsAt :: "string \<Rightarrow> string list \<Rightarrow> bool" where
  "splitsAt pat segs =
     (segs \<noteq> []
      \<and> list_all (\<lambda>s. \<not> occursIn pat (s @ butlast pat)) (butlast segs)
      \<and> \<not> occursIn pat (last segs))"

section \<open>Reading a result and a list of calls\<close>

text \<open>
  The identities a result holds, bucket after bucket: the processed ones, the skipped
  ones, and the keys of the failed ones.
\<close>

definition buckets :: "result \<Rightarrow> string list" where
  "buckets res = processed res @ skipped res @ map fst (failed res)"

text \<open>The number of calls of the write operation among the calls of a run.\<close>

fun isWrite :: "call \<Rightarrow> bool" where
  "isWrite (WriteSignature email content) = True"
| "isWrite (ReadSignature email) = False"
| "isWrite (AcquireWriteCredential email) = False"
| "isWrite (Sleep ms) = False"

definition writeCount :: "call list \<Rightarrow> nat" where
  "writeCount calls = length (filter isWrite calls)"

section \<open>Concrete inputs\<close>

text \<open>
  A rule set with a non-empty \<open>includedUsers\<close> and neither archived nor suspended users
  included, and three users of its domain.
\<close>

definition overrideRules :: client where
  "overrideRules =
     \<lparr>searchDomain = Some ''x.com'', adminEmail = Some ''admin@x.com'',
      defaultTemplateId = Some ''card'', includedUsers = [''a@x.com''],
      excludedUsers = [''a@x.com''], excludedOUs = [''/Sales''],
      includeArchived = False, includeSuspended = False\<rparr>"

definition suspendedListed :: user where
  "suspendedListed =
     \<lparr>primaryEmail = ''a@x.com'', orgUnitPath = ''/Sales'', archived = False,
      suspended = True\<rparr>"

definition activeListed :: user where
  "activeListed =
     \<lparr>primaryEmail = ''a@x.com'', orgUnitPath = ''/Sales'', archived = False,
      suspended = False\<rparr>"

definition activeUnlisted :: user where
  "activeUnlisted =
     \<lparr>primaryEmail = ''b@x.com'', orgUnitPath = ''/'', archived = False,
      suspended = False\<rparr>"

definition foreignListed :: user where
  "foreignListed =
     \<lparr>primaryEmail = ''a@y.org'', orgUnitPath = ''/'', archived = False,
      suspended = False\<rparr>"

text \<open>
  The rule set of the OU example: \<open>excludedOUs = ["Test"]\<close>, nothing else excluded, and
  two active users of the domain, in the OUs \<open>/Test/Interns\<close> and \<open>/Testing\<close>.
\<close>

definition testRules :: client where
  "testRules =
     \<lparr>searchDomain = Some ''x.com'', adminEmail = Some ''admin@x.com'',
      defaultTemplateId = Some ''card'', includedUsers = [],
      excludedUsers = [], excludedOUs = [''Test''],
      includeArchived = False, includeSuspended = False\<rparr>"

definition internUser :: user where
  "internUser =
     \<lparr>primaryEmail = ''intern@x.com'', orgUnitPath = ''/Test/Interns'', archived = False,
      suspended = False\<rparr>"

definition testingUser :: user where
  "testingUser =
     \<lparr>primaryEmail = ''qa@x.com'', orgUnitPath = ''/Testing'', archived = False,
      suspended = False\<rparr>"

text \<open>The configuration as the program ships it (\<open>CONFIG\<close>).\<close>

definition defaultClient :: client where
  "defaultClient =
     \<lparr>searchDomain = Some ''example.com'', adminEmail = Some ''admin@example.com'',
      defaultTemplateId = Some ''card'', includedUsers = [], excludedUsers = [],
      excludedOUs = [''Service Accounts'', ''Test'', ''External'', ''Offboarded'',
                     ''Administrators'', ''Archived''],
      includeArchived = False, includeSuspended = False\<rparr>"

definition defaultApi :: api where
  "defaultApi =
     \<lparr>BATCH_SIZE = Some 10, BATCH_DELAY = Some 1000, RETRY_ATTEMPTS = Some 3,
      RETRY_DELAY = Some 1000\<rparr>"

definition defaultConfig :: config where
  "defaultConfig =
     \<lparr>CLIENT = Some defaultClient, API = Some defaultApi,
      EXECUTION = Some \<lparr>dryRun = False, verbose = False\<rparr>\<rparr>"

text \<open>The shipped configuration with \<open>BATCH_DELAY\<close> set to zero.\<close>

definition zeroDelayConfig :: config where
  "zeroDelayConfig = defaultConfig\<lparr>API := Some (defaultApi\<lparr>BATCH_DELAY := Some 0\<rparr>)\<rparr>"

text \<open>A rule set with the empty domain, and a user whose address ends with the \<open>@\<close>.\<close>

definition emptyDomainRules :: client where
  "emptyDomainRules = defaultClient\<lparr>searchDomain := Some []\<rparr>"

definition bobAt :: user where
  "bobAt = \<lparr>primaryEmail = ''bob@'', orgUnitPath = ''/'', archived = False, suspended = False\<rparr>"

text \<open>
  A directory service that answers every request with status 200 and the first page of
  at most 500 of its users, with a token for the next page; and a platform on which
  the key and the access are in order and every fetch reaches that service.
\<close>

definition firstPage :: "user list \<Rightarrow> response" where
  "firstPage directory =
     \<lparr>responseCode = 200, contentText = [],
      parsed = Inr (Some \<lparr>users = Some (take 500 directory),
                          nextPageToken = Some ''next''\<rparr>)\<rparr>"

definition directoryEnv :: "user list \<Rightarrow> env" where
  "directoryEnv directory =
     \<lparr>scriptKey = Some ''{}'', parsedKey = Inr KeyTruthy, oauthAccess = True, lastError = [],
      accessToken = ''token'', urlFetch = (\<lambda>url auth. Inr (firstPage directory))\<rparr>"

text \<open>A directory of 501 users.\<close>

definition largeDirectory :: "user list" where
  "largeDirectory = replicate 500 activeListed @ [activeUnlisted]"

text \<open>
  A mailbox service for the concrete runs: the remote state lists the signature stored
  for each address, the desired signature greets the address, two signatures differ
  when they are not the same text, every credential is granted and every write
  succeeds.
\<close>

definition mailboxProvider :: "(string \<times> string) list provider" where
  "mailboxProvider =
     \<lparr>renderSignature = (\<lambda>email. ''Regards, '' @ email),
      needsUpdate = (\<lambda>current desired. current \<noteq> desired),
      readSignature = (\<lambda>w email. case map_of w email of None \<Rightarrow> [] | Some s \<Rightarrow> s),
      acquireWriteCredential = (\<lambda>w email. True),
      writeSignature = (\<lambda>w email content. (None, AList.update email content w))\<rparr>"


text \<open>
  The mailbox service with the credential denied for one address, and a remote state in
  which the signature of \<open>b@x.com\<close> is already the desired one.
\<close>

definition selectiveProvider :: "(string \<times> string) list provider" where
  "selectiveProvider =
     mailboxProvider\<lparr>acquireWriteCredential := (\<lambda>w email. email \<noteq> ''c@x.com'')\<rparr>"

definition bUpToDate :: "(string \<times> string) list" where
  "bUpToDate = [(''b@x.com'', ''Regards, b@x.com'')]"

section \<open>Properties of the user filter\<close>

lemma js_split_no_sep: "sep \<notin> set s \<Longrightarrow> js_split sep s = [s]"
  by (induction s) auto

lemma js_split_append_sep:
  "sep \<notin> set s \<Longrightarrow> js_split sep (s @ sep # t) = s # js_split sep t"
  by (induction s) auto

text \<open>
  On an address with one \<open>@\<close>, the expression the filter compares with the domain is
  the part after the \<open>@\<close>.
\<close>

lemma emailDomain_wellformed:
  assumes "CHR ''@'' \<notin> set localPart" "CHR ''@'' \<notin> set domainPart"
  shows "emailDomain (localPart @ ''@'' @ domainPart) = Some domainPart"
  using assms by (simp add: emailDomain_def js_split_append_sep js_split_no_sep)

lemma shouldIncludeUser_domain:
  "shouldIncludeUser c u \<Longrightarrow> emailDomain (primaryEmail u) = searchDomain c"
  unfolding shouldIncludeUser_def by (simp split: if_splits)

text \<open>
  C2, as the specification states it, fails: with \<open>includedUsers = ["a@x.com"]\<close> and
  \<open>includeSuspended = false\<close>, the suspended user \<open>a@x.com\<close> is rejected by the
  suspended test, which comes before the test of \<open>includedUsers\<close>; filtering
  \<open>[a@x.com (suspended), b@x.com]\<close> gives the empty list, not \<open>[a@x.com]\<close>.
\<close>

theorem includedUsers_counterexample:
  "includedUsers overrideRules \<noteq> []
   \<and> primaryEmail suspendedListed \<in> set (includedUsers overrideRules)
   \<and> \<not> shouldIncludeUser overrideRules suspendedListed
   \<and> filterUsers overrideRules [suspendedListed, activeUnlisted] = []"
  by (simp add: overrideRules_def suspendedListed_def activeUnlisted_def
        shouldIncludeUser_def filterUsers_def emailDomain_def)

text \<open>
  C2, amended: when \<open>includedUsers\<close> is not empty, a user is included exactly when it
  passes the archived, the suspended and the domain test, which come first, and its
  email is in \<open>includedUsers\<close>. Neither \<open>excludedUsers\<close> nor \<open>excludedOUs\<close> plays a part.
\<close>

theorem includedUsers_decides_after_checks:
  assumes "includedUsers c \<noteq> []"
  shows "shouldIncludeUser c u \<longleftrightarrow>
           (includeArchived c \<or> \<not> archived u)
         \<and> (includeSuspended c \<or> \<not> suspended u)
         \<and> emailDomain (primaryEmail u) = searchDomain c
         \<and> primaryEmail u \<in> set (includedUsers c)"
  using assms by (auto simp: shouldIncludeUser_def)

theorem includedUsers_decides_after_checks_witness:
  "includedUsers overrideRules \<noteq> [] \<and> shouldIncludeUser overrideRules activeListed
   \<and> filterUsers overrideRules [activeListed, activeUnlisted] = [''a@x.com'']"
proof -
  have h: "includedUsers overrideRules \<noteq> []" by (simp add: overrideRules_def)
  have "shouldIncludeUser overrideRules activeListed"
    unfolding includedUsers_decides_after_checks [OF h, of activeListed]
    by (simp add: overrideRules_def activeListed_def emailDomain_def)
  moreover have "\<not> shouldIncludeUser overrideRules activeUnlisted"
    unfolding includedUsers_decides_after_checks [OF h, of activeUnlisted]
    by (simp add: overrideRules_def activeUnlisted_def emailDomain_def)
  ultimately show ?thesis using h
    by (simp add: filterUsers_def activeListed_def)
qed

text \<open>
  C3: an email whose domain part (\<open>email.split("@")[1]\<close>) is not the configured domain
  is in the output of the filter for no list of users and no rule set, whatever
  \<open>includedUsers\<close> holds.
\<close>

theorem domain_mismatch_never_included:
  assumes "emailDomain email \<noteq> searchDomain c"
  shows "email \<notin> set (filterUsers c us)"
proof
  assume "email \<in> set (filterUsers c us)"
  then obtain u where "u \<in> set us" "shouldIncludeUser c u" "primaryEmail u = email"
    unfolding filterUsers_def by auto
  with shouldIncludeUser_domain [of c u] assms show False by simp
qed

theorem domain_mismatch_never_included_witness:
  "emailDomain ''a@y.org'' \<noteq> searchDomain (overrideRules\<lparr>includedUsers := [''a@y.org'']\<rparr>)
   \<and> ''a@y.org'' \<notin> set (filterUsers (overrideRules\<lparr>includedUsers := [''a@y.org'']\<rparr>)
                            [foreignListed, activeListed])"
proof -
  have h: "emailDomain ''a@y.org''
             \<noteq> searchDomain (overrideRules\<lparr>includedUsers := [''a@y.org'']\<rparr>)"
    by (simp add: overrideRules_def emailDomain_def)
  from h domain_mismatch_never_included [OF h, of "[foreignListed, activeListed]"]
  show ?thesis by simp
qed

text \<open>
  C4, on the code: with \<open>excludedOUs = ["Test"]\<close> neither the user in \<open>/Test/Interns\<close>
  nor the user in \<open>/Testing\<close> is excluded, since \<open>startsWith\<close> compares from the first
  character of the path, which is the slash. With the prefix written \<open>/Test\<close> both are
  excluded.
\<close>

theorem excludedOUs_without_slash_excludes_nothing:
  "filterUsers testRules [internUser, testingUser] = [''intern@x.com'', ''qa@x.com'']
   \<and> filterUsers (testRules\<lparr>excludedOUs := [''/Test'']\<rparr>) [internUser, testingUser] = []"
  by (simp add: testRules_def internUser_def testingUser_def
        shouldIncludeUser_def filterUsers_def emailDomain_def)

section \<open>Properties of validateConfig\<close>

lemma firstMissing_Some:
  "firstMissing cfg paths = Some path \<Longrightarrow> path \<in> set paths \<and> \<not> truthy (getPath cfg path)"
  by (induction paths) (auto split: if_splits)

lemma firstMissing_None:
  "firstMissing cfg paths = None \<Longrightarrow> path \<in> set paths \<Longrightarrow> truthy (getPath cfg path)"
  by (induction paths) (auto split: if_splits)

lemma firstMissing_first:
  "path \<in> set paths \<Longrightarrow> \<not> truthy (getPath cfg path)
     \<Longrightarrow> list_all (\<lambda>p. truthy (getPath cfg p)) (takeWhile (\<lambda>p. p \<noteq> path) paths)
     \<Longrightarrow> firstMissing cfg paths = Some path"
  by (induction paths) (auto split: if_splits)

lemma validateConfig_missing:
  "firstMissing cfg required = Some path
     \<Longrightarrow> validateConfig cfg = Inl (Error (''Missing required config: '' @ path))"
  by (simp add: validateConfig_def)

lemma rangeChecks_permit_zero:
  "1 \<le> n \<Longrightarrow>
     rangeChecks \<lparr>BATCH_SIZE = Some n, BATCH_DELAY = Some 0, RETRY_ATTEMPTS = Some 0,
                  RETRY_DELAY = Some 0\<rparr> = None"
  by (simp add: rangeChecks_def js_lt_def)

text \<open>
  C10: when one of the four required numbers of \<open>API\<close> is zero, \<open>validateConfig\<close>
  throws \<open>Missing required config: <path>\<close> for a required path whose value is falsy;
  the path is the one of the zero field when every required path before it holds a
  truthy value. The range checks that come after the loop accept zero for
  \<open>BATCH_DELAY\<close>, \<open>RETRY_ATTEMPTS\<close> and \<open>RETRY_DELAY\<close>.
\<close>

theorem zero_is_rejected_as_missing:
  assumes "path \<in> {''API.BATCH_SIZE'', ''API.BATCH_DELAY'', ''API.RETRY_ATTEMPTS'',
                     ''API.RETRY_DELAY''}"
    and "getPath cfg path = Num 0"
  shows "(\<exists>missing. missing \<in> set required \<and> \<not> truthy (getPath cfg missing)
            \<and> validateConfig cfg = Inl (Error (''Missing required config: '' @ missing)))
         \<and> (list_all (\<lambda>p. truthy (getPath cfg p)) (takeWhile (\<lambda>p. p \<noteq> path) required)
              \<longrightarrow> validateConfig cfg = Inl (Error (''Missing required config: '' @ path)))
         \<and> rangeChecks \<lparr>BATCH_SIZE = Some 1, BATCH_DELAY = Some 0, RETRY_ATTEMPTS = Some 0,
                          RETRY_DELAY = Some 0\<rparr> = None"
proof -
  have mem: "path \<in> set required" using assms(1) by (auto simp: required_def)
  have falsy: "\<not> truthy (getPath cfg path)" using assms(2) by simp
  have "\<exists>missing. missing \<in> set required \<and> \<not> truthy (getPath cfg missing)
            \<and> validateConfig cfg = Inl (Error (''Missing required config: '' @ missing))"
  proof (cases "firstMissing cfg required")
    case None
    from firstMissing_None [OF None mem] falsy show ?thesis by simp
  next
    case (Some missing)
    from firstMissing_Some [OF Some] validateConfig_missing [OF Some] show ?thesis by blast
  qed
  moreover have "list_all (\<lambda>p. truthy (getPath cfg p)) (takeWhile (\<lambda>p. p \<noteq> path) required)
              \<longrightarrow> validateConfig cfg = Inl (Error (''Missing required config: '' @ path))"
    using firstMissing_first [OF mem falsy] validateConfig_missing by blast
  ultimately show ?thesis using rangeChecks_permit_zero [of 1] by simp
qed

lemma getPath_zeroDelay:
  "getPath zeroDelayConfig ''CLIENT.searchDomain'' = Str ''example.com''"
  "getPath zeroDelayConfig ''CLIENT.adminEmail'' = Str ''admin@example.com''"
  "getPath zeroDelayConfig ''CLIENT.defaultTemplateId'' = Str ''card''"
  "getPath zeroDelayConfig ''API.BATCH_SIZE'' = Num 10"
  "getPath zeroDelayConfig ''API.BATCH_DELAY'' = Num 0"
  by (simp_all add: zeroDelayConfig_def defaultConfig_def defaultApi_def defaultClient_def
        getPath_def clientField_def apiField_def strVal_def numVal_def)

theorem zero_is_rejected_as_missing_witness:
  "getPath zeroDelayConfig ''API.BATCH_DELAY'' = Num 0
   \<and> validateConfig zeroDelayConfig = Inl (Error ''Missing required config: API.BATCH_DELAY'')"
proof -
  have z: "getPath zeroDelayConfig ''API.BATCH_DELAY'' = Num 0"
    by (rule getPath_zeroDelay)
  have before: "list_all (\<lambda>p. truthy (getPath zeroDelayConfig p))
                  (takeWhile (\<lambda>p. p \<noteq> ''API.BATCH_DELAY'') required)"
    by (simp add: required_def getPath_zeroDelay)
  from zero_is_rejected_as_missing [of "''API.BATCH_DELAY''" zeroDelayConfig, OF _ z] before z
  show ?thesis by simp
qed

lemma truthy_domain: "truthy (getPath cfg ''CLIENT.searchDomain'') = (\<not> domainUnset cfg)"
  by (simp add: getPath_def clientField_def strVal_def domainUnset_def
        split: option.splits)

lemma validateConfig_domain:
  "(validateConfig cfg = Inl (Error ''Missing required config: CLIENT.searchDomain''))
     = domainUnset cfg"
proof
  assume unset: "domainUnset cfg"
  then have "firstMissing cfg required = Some ''CLIENT.searchDomain''"
    by (simp add: required_def truthy_domain)
  from validateConfig_missing [OF this] show "validateConfig cfg = Inl (Error ''Missing required config: CLIENT.searchDomain'')"
    by simp
next
  assume err: "validateConfig cfg = Inl (Error ''Missing required config: CLIENT.searchDomain'')"
  show "domainUnset cfg"
  proof (cases "firstMissing cfg required")
    case None
    with err show ?thesis
      by (simp add: validateConfig_def rangeChecks_def split: option.splits if_splits)
  next
    case (Some missing)
    with err have "missing = ''CLIENT.searchDomain''" by (simp add: validateConfig_def)
    with firstMissing_Some [OF Some] show ?thesis by (simp add: truthy_domain)
  qed
qed

section \<open>Properties of the directory fetch and of the run\<close>

lemma getAllowedUsers_filters:
  assumes "keyAvailable e" "oauthAccess e" "fetchUsers e c = (Inr us, urls)"
  shows "getAllowedUsers e c = (Inr (filterUsers c us), urls)"
  using assms by (simp add: getAllowedUsers_def)

lemma fetchUsers_urls: "snd (fetchUsers e c) = [usersUrl c]"
  by (simp add: fetchUsers_def split: sum.splits option.splits)

lemma fetchUsers_directoryEnv:
  "fetchUsers (directoryEnv directory) c = (Inr (take 500 directory), [usersUrl c])"
  by (simp add: fetchUsers_def directoryEnv_def firstPage_def)

lemma keyAvailable_directoryEnv: "keyAvailable (directoryEnv directory)"
  by (simp add: keyAvailable_def directoryEnv_def)

lemma oauthAccess_directoryEnv: "oauthAccess (directoryEnv directory)"
  by (simp add: directoryEnv_def)

text \<open>
  Without a usable key \<open>getAllowedUsers\<close> throws before anything is fetched: also when
  the key property parses to \<open>null\<close> or to another falsy value.
\<close>

lemma getAllowedUsers_without_key:
  "\<not> keyAvailable e
     \<Longrightarrow> getAllowedUsers e c = (Inl (Error ''Service account key is not available''), [])"
  by (simp add: getAllowedUsers_def)

lemma keyAvailable_iff:
  "keyAvailable e
     = (\<exists>k. scriptKey e = Some k \<and> k \<noteq> [] \<and> parsedKey e = Inr KeyTruthy)"
  by (auto simp: keyAvailable_def split: option.splits)

lemma getAllowedUsers_null_key:
  "getAllowedUsers (directoryEnv [activeListed]\<lparr>scriptKey := Some ''null'',
                                                 parsedKey := Inr KeyNull\<rparr>) testRules
     = (Inl (Error ''Service account key is not available''), [])"
  by (simp add: getAllowedUsers_def keyAvailable_def directoryEnv_def)

text \<open>
  In \<open>runSignatureManager\<close> a key that parses to \<open>null\<close> ends the run with the TypeError
  of the log line, and a key that parses to another falsy value with \<open>AUTH_NEEDED\<close>; in
  both cases nothing is fetched.
\<close>

lemma runSignatureManager_null_key:
  assumes "validateConfig cfg = Inr cfg'" "scriptKey e = Some k" "k \<noteq> []"
    and "parsedKey e = Inr KeyNull"
  shows "runSignatureManager e p cfg w = (ERROR (nullRead ''client_email''), [], [], w)"
  using assms by (simp add: runSignatureManager_def)

lemma runSignatureManager_falsy_key:
  assumes "validateConfig cfg = Inr cfg'" "scriptKey e = Some k" "k \<noteq> []"
    and "parsedKey e = Inr KeyFalsy"
  shows "runSignatureManager e p cfg w = (AUTH_NEEDED, [], [], w)"
  using assms by (simp add: runSignatureManager_def authHasAccess_def keyAvailable_def)

text \<open>
  C8, as the specification states it, fails: the filter makes no check of the domain.
  With the empty domain and the key and the access in order, \<open>getAllowedUsers\<close> returns
  a list, and an address that ends with the \<open>@\<close> is in it.
\<close>

theorem filter_accepts_empty_domain:
  "searchDomain emptyDomainRules = Some []
   \<and> getAllowedUsers (directoryEnv [bobAt, activeListed]) emptyDomainRules
       = (Inr [''bob@''],
          [''https://admin.googleapis.com/admin/directory/v1/users?domain=&maxResults=500&projection=full''])"
proof -
  have "filterUsers emptyDomainRules [bobAt, activeListed] = [''bob@'']"
    by (simp add: filterUsers_def shouldIncludeUser_def emptyDomainRules_def defaultClient_def
          bobAt_def activeListed_def emailDomain_def)
  moreover have "usersUrl emptyDomainRules
    = ''https://admin.googleapis.com/admin/directory/v1/users?domain=&maxResults=500&projection=full''"
    by (simp add: usersUrl_def shown_def emptyDomainRules_def)
  moreover have "searchDomain emptyDomainRules = Some []"
    by (simp add: emptyDomainRules_def)
  ultimately show ?thesis
    using getAllowedUsers_filters [OF keyAvailable_directoryEnv oauthAccess_directoryEnv
        fetchUsers_directoryEnv, of "[bobAt, activeListed]" emptyDomainRules]
    by simp
qed

text \<open>
  C8, amended: the check of the domain is made by \<open>validateConfig\<close>, not by the filter.
  \<open>validateConfig\<close> throws \<open>Missing required config: CLIENT.searchDomain\<close> exactly when
  the domain is empty or unset; the run then ends with that error before anything is
  fetched from the directory, before any call of the pipeline, and with the remote
  state as it was. The filter itself fails for no rule set: once the users are
  fetched, \<open>getAllowedUsers\<close> returns the filtered list.
\<close>

theorem domain_checked_by_validateConfig:
  "((validateConfig cfg = Inl (Error ''Missing required config: CLIENT.searchDomain''))
      = domainUnset cfg)
   \<and> (domainUnset cfg \<longrightarrow>
        runSignatureManager e p cfg w
          = (ERROR ''Missing required config: CLIENT.searchDomain'', [], [], w))
   \<and> (keyAvailable e \<and> oauthAccess e \<and> fetchUsers e c = (Inr us, urls) \<longrightarrow>
        getAllowedUsers e c = (Inr (filterUsers c us), urls))"
proof -
  have "domainUnset cfg \<longrightarrow>
        runSignatureManager e p cfg w
          = (ERROR ''Missing required config: CLIENT.searchDomain'', [], [], w)"
  proof
    assume "domainUnset cfg"
    then have "validateConfig cfg = Inl (Error ''Missing required config: CLIENT.searchDomain'')"
      by (simp add: validateConfig_domain)
    then show "runSignatureManager e p cfg w
          = (ERROR ''Missing required config: CLIENT.searchDomain'', [], [], w)"
      by (simp add: runSignatureManager_def)
  qed
  then show ?thesis
    using validateConfig_domain [of cfg] getAllowedUsers_filters [of e c us urls] by blast
qed

theorem domain_checked_by_validateConfig_witness:
  "domainUnset (defaultConfig\<lparr>CLIENT := Some emptyDomainRules\<rparr>)
   \<and> validateConfig (defaultConfig\<lparr>CLIENT := Some emptyDomainRules\<rparr>)
       = Inl (Error ''Missing required config: CLIENT.searchDomain'')
   \<and> runSignatureManager (directoryEnv [bobAt]) mailboxProvider
         (defaultConfig\<lparr>CLIENT := Some emptyDomainRules\<rparr>) []
       = (ERROR ''Missing required config: CLIENT.searchDomain'', [], [], [])"
proof -
  have unset: "domainUnset (defaultConfig\<lparr>CLIENT := Some emptyDomainRules\<rparr>)"
    by (simp add: domainUnset_def emptyDomainRules_def defaultConfig_def)
  from domain_checked_by_validateConfig
         [of "defaultConfig\<lparr>CLIENT := Some emptyDomainRules\<rparr>" "directoryEnv [bobAt]"
             mailboxProvider "[]"]
       unset
  show ?thesis by blast
qed

text \<open>
  C9: \<open>_fetchUsers\<close> makes one request, to the url with \<open>maxResults=500\<close> and no page
  token, whatever the response is. When the directory service answers it with its
  first page of at most 500 users, these are the only users the filter sees: the
  allowed users are those of the first page that pass the filter, at most 500, and the
  page token of the response is not read.
\<close>

theorem fetchUsers_single_page:
  "snd (fetchUsers e c)
     = [''https://admin.googleapis.com/admin/directory/v1/users?domain=''
          @ shown (searchDomain c) @ ''&maxResults=500&projection=full'']
   \<and> (keyAvailable e \<and> oauthAccess e
        \<and> urlFetch e (usersUrl c) (''Bearer '' @ accessToken e) = Inr resp
        \<and> responseCode resp = 200
        \<and> parsed resp
            = Inr (Some \<lparr>users = Some (take 500 directory), nextPageToken = token\<rparr>)
      \<longrightarrow> getAllowedUsers e c = (Inr (filterUsers c (take 500 directory)), [usersUrl c])
          \<and> length (filterUsers c (take 500 directory)) \<le> 500
          \<and> set (filterUsers c (take 500 directory))
               \<subseteq> primaryEmail ` set (take 500 directory))"
proof -
  have one: "snd (fetchUsers e c)
     = [''https://admin.googleapis.com/admin/directory/v1/users?domain=''
          @ shown (searchDomain c) @ ''&maxResults=500&projection=full'']"
    using fetchUsers_urls [of e c] by (simp add: usersUrl_def)
  have len: "length (filterUsers c (take 500 directory)) \<le> 500"
  proof -
    have "length (filter (shouldIncludeUser c) (take 500 directory))
            \<le> length (take 500 directory)"
      by (rule length_filter_le)
    also have "\<dots> \<le> 500" by simp
    finally show ?thesis by (simp add: filterUsers_def)
  qed
  have sub: "set (filterUsers c (take 500 directory)) \<subseteq> primaryEmail ` set (take 500 directory)"
    unfolding filterUsers_def by auto
  have "keyAvailable e \<and> oauthAccess e
        \<and> urlFetch e (usersUrl c) (''Bearer '' @ accessToken e) = Inr resp
        \<and> responseCode resp = 200
        \<and> parsed resp
            = Inr (Some \<lparr>users = Some (take 500 directory), nextPageToken = token\<rparr>)
      \<longrightarrow> getAllowedUsers e c = (Inr (filterUsers c (take 500 directory)), [usersUrl c])"
  proof
    assume h: "keyAvailable e \<and> oauthAccess e
        \<and> urlFetch e (usersUrl c) (''Bearer '' @ accessToken e) = Inr resp
        \<and> responseCode resp = 200
        \<and> parsed resp
            = Inr (Some \<lparr>users = Some (take 500 directory), nextPageToken = token\<rparr>)"
    then have "fetchUsers e c = (Inr (take 500 directory), [usersUrl c])"
      by (simp add: fetchUsers_def)
    with h show "getAllowedUsers e c = (Inr (filterUsers c (take 500 directory)), [usersUrl c])"
      by (simp add: getAllowedUsers_filters)
  qed
  with one len sub show ?thesis by blast
qed

theorem fetchUsers_single_page_witness:
  "getAllowedUsers (directoryEnv largeDirectory) testRules
     = (Inr (replicate 500 ''a@x.com''),
        [''https://admin.googleapis.com/admin/directory/v1/users?domain=x.com&maxResults=500&projection=full''])
   \<and> length largeDirectory = 501
   \<and> ''b@x.com'' \<in> set (filterUsers testRules largeDirectory)"
proof -
  have page: "take 500 largeDirectory = replicate 500 activeListed"
    by (simp add: largeDirectory_def)
  have a: "shouldIncludeUser testRules activeListed"
    by (simp add: shouldIncludeUser_def testRules_def activeListed_def emailDomain_def)
  have b: "shouldIncludeUser testRules activeUnlisted"
    by (simp add: shouldIncludeUser_def testRules_def activeUnlisted_def emailDomain_def)
  have allowed: "filterUsers testRules (take 500 largeDirectory) = replicate 500 ''a@x.com''"
    using a by (simp add: page filterUsers_def activeListed_def)
  have url: "usersUrl testRules
    = ''https://admin.googleapis.com/admin/directory/v1/users?domain=x.com&maxResults=500&projection=full''"
    by (simp add: usersUrl_def shown_def testRules_def)
  have beyond: "''b@x.com'' \<in> set (filterUsers testRules largeDirectory)"
    using b by (simp add: filterUsers_def largeDirectory_def activeUnlisted_def)
  have hyps: "keyAvailable (directoryEnv largeDirectory) \<and> oauthAccess (directoryEnv largeDirectory)
        \<and> urlFetch (directoryEnv largeDirectory) (usersUrl testRules)
              (''Bearer '' @ accessToken (directoryEnv largeDirectory))
            = Inr (firstPage largeDirectory)
        \<and> responseCode (firstPage largeDirectory) = 200
        \<and> parsed (firstPage largeDirectory)
            = Inr (Some \<lparr>users = Some (take 500 largeDirectory),
                          nextPageToken = Some ''next''\<rparr>)"
    by (simp add: keyAvailable_def directoryEnv_def firstPage_def)
  from fetchUsers_single_page
         [of "directoryEnv largeDirectory" testRules "firstPage largeDirectory" largeDirectory
             "Some ''next''"] hyps
  have "getAllowedUsers (directoryEnv largeDirectory) testRules
          = (Inr (filterUsers testRules (take 500 largeDirectory)), [usersUrl testRules])"
    by blast
  with allowed url beyond show ?thesis by (simp add: largeDirectory_def)
qed

section \<open>Properties of applyTemplate\<close>










lemma applyTemplate_Cons:
  "applyTemplate t (x # xs) = applyTemplate (applyEntry t x) xs"
  by (simp add: applyTemplate_def)



lemma getSubstitution_no_dollar:
  "CHR ''$'' \<notin> set r \<Longrightarrow> getSubstitution m b a r = r"
  by (induction m b a r rule: getSubstitution.induct) auto

lemma replaceGlobal_Nil: "pat \<noteq> [] \<Longrightarrow> replaceGlobal pat r seen [] = []"
  by simp

lemma replaceGlobal_skip:
  "pat \<noteq> [] \<Longrightarrow> \<not> prefix pat (c # cs)
     \<Longrightarrow> replaceGlobal pat r seen (c # cs) = c # replaceGlobal pat r (seen @ [c]) cs"
  by simp

lemma replaceGlobal_match:
  assumes "pat \<noteq> []"
  shows "replaceGlobal pat r seen (pat @ rest)
           = getSubstitution pat seen rest r @ replaceGlobal pat r (seen @ pat) rest"
proof -
  obtain c cs where s: "pat @ rest = c # cs" using assms by (cases pat) auto
  have "prefix pat (c # cs)" using s by (metis prefixI)
  moreover have "drop (length pat) (c # cs) = rest" using s by (metis append_eq_conv_conj)
  ultimately show ?thesis using assms s by (simp del: Cons_prefix_Cons)
qed

declare replaceGlobal.simps [simp del]

lemma occursIn_length: "occursIn pat s \<Longrightarrow> length pat \<le> length s"
  by (induction s) (auto dest: prefix_length_le)

lemma not_prefix_longer:
  assumes "pat \<noteq> []" "\<not> prefix pat (c # s @ butlast pat)"
  shows "\<not> prefix pat (c # s @ pat @ rest)"
proof
  assume p: "prefix pat (c # s @ pat @ rest)"
  have "pat = butlast pat @ [last pat]" using assms(1) by simp
  then have "c # s @ pat @ rest = (c # s @ butlast pat) @ (last pat # rest)"
    by (metis append_Cons append_Nil append_assoc)
  then have q: "prefix (c # s @ butlast pat) (c # s @ pat @ rest)"
    by (metis prefixI)
  have "length pat \<le> length (c # s @ butlast pat)" using assms(1) by (cases pat) auto
  from prefix_length_prefix [OF p q this] assms(2) show False by simp
qed

lemma replaceGlobal_segment:
  "pat \<noteq> [] \<Longrightarrow> \<not> occursIn pat (s @ butlast pat)
     \<Longrightarrow> replaceGlobal pat r seen (s @ pat @ rest)
           = s @ replaceGlobal pat r (seen @ s) (pat @ rest)"
proof (induction s arbitrary: seen)
  case Nil
  then show ?case by simp
next
  case (Cons c s)
  then have np: "\<not> prefix pat (c # s @ butlast pat)" and no: "\<not> occursIn pat (s @ butlast pat)"
    by simp_all
  from not_prefix_longer [OF Cons.prems(1) np]
  have "\<not> prefix pat (c # s @ pat @ rest)" .
  then have "replaceGlobal pat r seen (c # s @ pat @ rest)
               = c # replaceGlobal pat r (seen @ [c]) (s @ pat @ rest)"
    using Cons.prems(1) by (rule replaceGlobal_skip [rotated])
  with Cons.IH [OF Cons.prems(1) no, of "seen @ [c]"] show ?case by simp
qed

lemma replaceGlobal_absent:
  "pat \<noteq> [] \<Longrightarrow> \<not> occursIn pat s \<Longrightarrow> replaceGlobal pat r seen s = s"
  by (induction s arbitrary: seen) (simp_all add: replaceGlobal_Nil replaceGlobal_skip)

lemma replaceGlobal_joinWith:
  "pat \<noteq> [] \<Longrightarrow> CHR ''$'' \<notin> set r \<Longrightarrow> splitsAt pat segs
     \<Longrightarrow> replaceGlobal pat r seen (joinWith pat segs) = joinWith r segs"
proof (induction pat segs arbitrary: seen rule: joinWith.induct)
  case (1 sep)
  then show ?case by (simp add: splitsAt_def)
next
  case (2 sep s)
  then show ?case by (simp add: splitsAt_def replaceGlobal_absent)
next
  case (3 sep s t ss)
  from "3.prems"(3) have seg: "\<not> occursIn sep (s @ butlast sep)" and rest: "splitsAt sep (t # ss)"
    by (simp_all add: splitsAt_def)
  have "replaceGlobal sep r seen (joinWith sep (s # t # ss))
          = s @ replaceGlobal sep r (seen @ s) (sep @ joinWith sep (t # ss))"
    using replaceGlobal_segment [OF "3.prems"(1) seg] by simp
  also have "\<dots> = s @ r @ replaceGlobal sep r ((seen @ s) @ sep) (joinWith sep (t # ss))"
    using replaceGlobal_match [OF "3.prems"(1)] getSubstitution_no_dollar [OF "3.prems"(2)]
    by simp
  also have "\<dots> = s @ r @ joinWith r (t # ss)"
    using "3.IH" [OF "3.prems"(1,2) rest] by simp
  finally show ?case by simp
qed

lemma leftmost_occurrence:
  "pat \<noteq> [] \<Longrightarrow> occursIn pat t
     \<Longrightarrow> \<exists>s rest. t = s @ pat @ rest \<and> \<not> occursIn pat (s @ butlast pat)"
proof (induction t)
  case Nil
  then show ?case by simp
next
  case (Cons c cs)
  show ?case
  proof (cases "prefix pat (c # cs)")
    case True
    then obtain rest where "c # cs = pat @ rest" by (auto elim: prefixE)
    moreover have "\<not> occursIn pat (butlast pat)"
      using occursIn_length [of pat "butlast pat"] Cons.prems(1) by (cases pat) auto
    ultimately have "c # cs = [] @ pat @ rest \<and> \<not> occursIn pat ([] @ butlast pat)" by simp
    then show ?thesis by blast
  next
    case False
    with Cons.prems have "occursIn pat cs" by simp
    from Cons.IH [OF Cons.prems(1) this] obtain s rest
      where cs: "cs = s @ pat @ rest" and no: "\<not> occursIn pat (s @ butlast pat)" by blast
    have "\<not> prefix pat (c # s @ butlast pat)"
    proof
      assume "prefix pat (c # s @ butlast pat)"
      then have "prefix pat ((c # s @ butlast pat) @ (last pat # rest))" by (rule prefix_prefix)
      moreover have "(c # s @ butlast pat) @ (last pat # rest) = c # cs"
        using cs Cons.prems(1) by simp
      ultimately show False using False by simp
    qed
    with no have "c # cs = (c # s) @ pat @ rest \<and> \<not> occursIn pat ((c # s) @ butlast pat)"
      using cs by simp
    then show ?thesis by blast
  qed
qed

lemma joinWith_Cons: "segs \<noteq> [] \<Longrightarrow> joinWith sep (s # segs) = s @ sep @ joinWith sep segs"
  by (cases segs) simp_all

lemma splitsAt_Cons:
  "\<not> occursIn pat (s @ butlast pat) \<Longrightarrow> splitsAt pat segs \<Longrightarrow> splitsAt pat (s # segs)"
  by (cases segs) (simp_all add: splitsAt_def)

lemma template_splits:
  "pat \<noteq> [] \<Longrightarrow> \<exists>segs. splitsAt pat segs \<and> t = joinWith pat segs"
proof (induction "length t" arbitrary: t rule: less_induct)
  case less
  show ?case
  proof (cases "occursIn pat t")
    case False
    then have "splitsAt pat [t] \<and> t = joinWith pat [t]" by (simp add: splitsAt_def)
    then show ?thesis by blast
  next
    case True
    from leftmost_occurrence [OF less.prems True] obtain s rest
      where t: "t = s @ pat @ rest" and no: "\<not> occursIn pat (s @ butlast pat)" by blast
    have "length rest < length t" using t less.prems by simp
    from less.hyps [OF this less.prems] obtain segs
      where segs: "splitsAt pat segs" "rest = joinWith pat segs" by blast
    then have "segs \<noteq> []" by (simp add: splitsAt_def)
    then have "t = joinWith pat (s # segs)" using t segs(2) by (simp add: joinWith_Cons)
    with splitsAt_Cons [OF no segs(1)] show ?thesis by blast
  qed
qed

text \<open>
  C6, as the specification states it, fails on three counts. The text is scanned once
  per entry, so a token that the replacement pieces together is left in the output:
  \<open>{{A}A}\<close> with no value for \<open>{A}\<close> renders as \<open>{A}\<close>. The value is the replacement
  string of \<open>replace\<close>, where \<open>$$\<close> stands for one dollar and \<open>$&\<close> for the match, so
  it is not put in literally. And an entry is applied to the text the entries before
  it have produced, values included.
\<close>

theorem applyTemplate_not_literal:
  "applyTemplate ''{{A}A}'' [(''{A}'', None)] = ''{A}''
   \<and> applyTemplate ''Price: {P}'' [(''{P}'', Some ''$$5'')] = ''Price: $5''
   \<and> applyTemplate ''Fee: {P}'' [(''{P}'', Some ''$&'')] = ''Fee: {P}''
   \<and> applyTemplate ''{A}'' [(''{A}'', Some ''{B}''), (''{B}'', Some ''x'')] = ''x''"
  by (simp add: applyTemplate_def applyEntry_def substituted_def replaceGlobal.simps)

text \<open>
  C6, amended: for a placeholder that is not empty and a value to substitute that holds
  no dollar sign, an entry replaces every occurrence of the placeholder that a scan of
  the text from left to right finds, by the value, and by the empty string when the
  value is missing: every template is a list of stretches joined by the placeholder,
  and the entry turns it into the same stretches joined by the value; the entries
  after it are applied to that text. (The value of \<open>{PrimaryFont}\<close> is substituted
  with its quotes rewritten.)
\<close>

theorem placeholder_occurrences_replaced:
  assumes "placeholder \<noteq> []" "CHR ''$'' \<notin> set (substituted placeholder v)"
  shows "(\<exists>segs. splitsAt placeholder segs \<and> template = joinWith placeholder segs)
         \<and> (\<forall>segs. splitsAt placeholder segs \<longrightarrow>
                applyTemplate (joinWith placeholder segs) ((placeholder, v) # later)
                  = applyTemplate (joinWith (substituted placeholder v) segs) later)
         \<and> substituted placeholder None = []"
proof -
  have "applyTemplate (joinWith placeholder segs) ((placeholder, v) # later)
          = applyTemplate (joinWith (substituted placeholder v) segs) later"
    if "splitsAt placeholder segs" for segs
    using replaceGlobal_joinWith [OF assms that, of "[]"]
    by (simp add: applyTemplate_Cons applyEntry_def)
  then show ?thesis
    using template_splits [OF assms(1), of template] by (simp add: substituted_def)
qed

theorem placeholder_occurrences_replaced_witness:
  "splitsAt ''{Name}'' [''Hi '', '', '', ''!'']
   \<and> joinWith ''{Name}'' [''Hi '', '', '', ''!''] = ''Hi {Name}, {Name}!''
   \<and> applyTemplate ''Hi {Name}, {Name}!'' [(''{Name}'', Some ''Ann'')] = ''Hi Ann, Ann!''
   \<and> applyTemplate ''Hi {Name}, {Name}!'' [(''{Name}'', None)] = ''Hi , !''"
proof -
  have sp: "splitsAt ''{Name}'' [''Hi '', '', '', ''!'']"
    by (simp add: splitsAt_def)
  have j: "joinWith ''{Name}'' [''Hi '', '', '', ''!''] = ''Hi {Name}, {Name}!''"
    by simp
  have a: "CHR ''$'' \<notin> set (substituted ''{Name}'' (Some ''Ann''))"
    by (simp add: substituted_def)
  have n: "CHR ''$'' \<notin> set (substituted ''{Name}'' None)"
    by (simp add: substituted_def)
  from placeholder_occurrences_replaced [of "''{Name}''" "Some ''Ann''" "[]" "[]", OF _ a] sp
  have "applyTemplate (joinWith ''{Name}'' [''Hi '', '', '', ''!'']) [(''{Name}'', Some ''Ann'')]
          = applyTemplate (joinWith (substituted ''{Name}'' (Some ''Ann'')) [''Hi '', '', '', ''!'']) []"
    by blast
  moreover
  from placeholder_occurrences_replaced [of "''{Name}''" None "[]" "[]", OF _ n] sp
  have "applyTemplate (joinWith ''{Name}'' [''Hi '', '', '', ''!'']) [(''{Name}'', None)]
          = applyTemplate (joinWith (substituted ''{Name}'' None) [''Hi '', '', '', ''!'']) []"
    by blast
  ultimately show ?thesis using sp j
    by (simp add: substituted_def applyTemplate_def)
qed

section \<open>Properties of the synchronization pipeline\<close>

declare batches.simps [simp del]

lemma batches_Nil: "batches n [] = []"
  by (simp add: batches.simps)

lemma batches_step:
  "0 < n \<Longrightarrow> xs \<noteq> [] \<Longrightarrow> batches n xs = take n xs # batches n (drop n xs)"
  by (subst batches.simps) simp

lemma concat_batches: "0 < n \<Longrightarrow> concat (batches n xs) = xs"
proof (induction n xs rule: batches.induct)
  case (1 n xs)
  show ?case
  proof (cases "xs = []")
    case True
    then show ?thesis by (simp add: batches_Nil)
  next
    case False
    with 1 show ?thesis by (simp add: batches_step)
  qed
qed

lemma buckets_addOutcome:
  assumes "email \<notin> set (buckets res)"
  shows "set (buckets (addOutcome email outcome res)) = insert email (set (buckets res))"
    and "distinct (buckets res) \<Longrightarrow> distinct (buckets (addOutcome email outcome res))"
  using assms by (cases outcome; auto simp: buckets_def update_keys dom_update)+

lemma processBatch_buckets:
  "distinct emails \<Longrightarrow> set emails \<inter> set (buckets res) = {} \<Longrightarrow> distinct (buckets res)
     \<Longrightarrow> processBatch p dry retries delay emails res w = (res', w', calls)
     \<Longrightarrow> distinct (buckets res') \<and> set (buckets res') = set (buckets res) \<union> set emails"
proof (induction emails arbitrary: res w res' w' calls)
  case Nil
  then show ?case by simp
next
  case (Cons email emails)
  obtain outcome w1 calls1 where one: "processIdentity p dry retries delay email w = (outcome, w1, calls1)"
    by (cases "processIdentity p dry retries delay email w") auto
  obtain res2 w2 calls2
    where rest: "processBatch p dry retries delay emails (addOutcome email outcome res) w1
                   = (res2, w2, calls2)"
    by (cases "processBatch p dry retries delay emails (addOutcome email outcome res) w1") auto
  from Cons.prems(4) one rest have res': "res' = res2" by simp
  from Cons.prems(2) have fresh: "email \<notin> set (buckets res)" by auto
  note add = buckets_addOutcome [OF fresh, of outcome]
  have "distinct emails" using Cons.prems(1) by simp
  moreover have "set emails \<inter> set (buckets (addOutcome email outcome res)) = {}"
    using Cons.prems(1,2) add(1) by auto
  moreover have "distinct (buckets (addOutcome email outcome res))"
    using add(2) Cons.prems(3) by simp
  ultimately have "distinct (buckets res2)
      \<and> set (buckets res2) = set (buckets (addOutcome email outcome res)) \<union> set emails"
    using Cons.IH rest by blast
  with add(1) res' show ?case by auto
qed

lemma runBatches_buckets:
  "distinct (concat bs) \<Longrightarrow> set (concat bs) \<inter> set (buckets res) = {}
     \<Longrightarrow> distinct (buckets res)
     \<Longrightarrow> runBatches p dry retries delay batchDelay bs res w = (res', w', calls)
     \<Longrightarrow> distinct (buckets res') \<and> set (buckets res') = set (buckets res) \<union> set (concat bs)"
proof (induction p dry retries delay batchDelay bs res w arbitrary: res' w' calls
        rule: runBatches.induct)
  case (1 p dry retries delay batchDelay res w)
  then show ?case by simp
next
  case (2 p dry retries delay batchDelay b res w)
  then show ?case using processBatch_buckets [of b res p dry retries delay w res' w' calls]
    by simp
next
  case (3 p dry retries delay batchDelay b b' bs res w)
  obtain res1 w1 calls1 where first: "processBatch p dry retries delay b res w = (res1, w1, calls1)"
    by (cases "processBatch p dry retries delay b res w") auto
  obtain res2 w2 calls2
    where rest: "runBatches p dry retries delay batchDelay (b' # bs) res1 w1 = (res2, w2, calls2)"
    by (cases "runBatches p dry retries delay batchDelay (b' # bs) res1 w1") auto
  from "3.prems"(4) first rest have res': "res' = res2" by simp
  have b: "distinct b" "set b \<inter> set (buckets res) = {}"
    using "3.prems"(1,2) by auto
  from processBatch_buckets [OF b "3.prems"(3) first]
  have one: "distinct (buckets res1)" "set (buckets res1) = set (buckets res) \<union> set b"
    by simp_all
  have "distinct (concat (b' # bs))" using "3.prems"(1) by simp
  moreover have "set (concat (b' # bs)) \<inter> set (buckets res1) = {}"
    using "3.prems"(1,2) one(2) by auto
  ultimately have "distinct (buckets res2)
      \<and> set (buckets res2) = set (buckets res1) \<union> set (concat (b' # bs))"
    using "3.IH" [OF first [symmetric] refl _ _ one(1) rest] by blast
  with one(2) res' show ?case by auto
qed

lemma writeWithRetry_success:
  "fst (writeSignature p w email content) = None
     \<Longrightarrow> writeWithRetry n p delay email content w
           = (None, snd (writeSignature p w email content), [WriteSignature email content])"
  by (cases n; cases "writeSignature p w email content") auto

lemma buckets_emptyResult: "buckets emptyResult = []"
  by (simp add: buckets_def emptyResult_def)

lemma batches_single:
  "0 < n \<Longrightarrow> xs \<noteq> [] \<Longrightarrow> length xs \<le> n \<Longrightarrow> batches n xs = [xs]"
  by (simp add: batches_step batches_Nil)

lemma apiNat_defaultApi:
  "apiNat (BATCH_SIZE defaultApi) = 10" "apiNat (BATCH_DELAY defaultApi) = 1000"
  "apiNat (RETRY_ATTEMPTS defaultApi) = 3" "apiNat (RETRY_DELAY defaultApi) = 1000"
  by (simp_all add: apiNat_def defaultApi_def)

lemma partition_of_distinct:
  assumes "distinct identities" "0 < apiNat (BATCH_SIZE a)"
  shows "\<exists>res w' calls.
           processUsers p a dry identities w = (Inr res, w', calls)
         \<and> length (processed res) + length (skipped res) + length (failed res)
             = length identities
         \<and> set (processed res) \<union> set (skipped res) \<union> fst ` set (failed res)
             = set identities
         \<and> distinct (processed res @ skipped res @ map fst (failed res))"
proof -
  obtain res w' calls
    where run: "runBatches p dry (apiNat (RETRY_ATTEMPTS a)) (apiNat (RETRY_DELAY a))
                  (apiNat (BATCH_DELAY a)) (batches (apiNat (BATCH_SIZE a)) identities)
                  emptyResult w = (res, w', calls)"
    by (cases "runBatches p dry (apiNat (RETRY_ATTEMPTS a)) (apiNat (RETRY_DELAY a))
                 (apiNat (BATCH_DELAY a)) (batches (apiNat (BATCH_SIZE a)) identities)
                 emptyResult w") auto
  have whole: "concat (batches (apiNat (BATCH_SIZE a)) identities) = identities"
    using assms(2) by (rule concat_batches)
  from runBatches_buckets [OF _ _ _ run] assms(1)
  have d: "distinct (buckets res)" and s: "set (buckets res) = set identities"
    by (simp_all add: whole buckets_emptyResult)
  have "length (buckets res) = length identities"
    using d s assms(1) by (metis distinct_card)
  then have "length (processed res) + length (skipped res) + length (failed res)
               = length identities"
    by (simp add: buckets_def)
  moreover have "set (processed res) \<union> set (skipped res) \<union> fst ` set (failed res)
                   = set identities"
    using s by (auto simp: buckets_def)
  moreover have "processUsers p a dry identities w = (Inr res, w', calls)"
    using assms(2) run by (simp add: processUsers_def)
  ultimately show ?thesis using d by (auto simp: buckets_def)
qed

text \<open>
  C1: the identities submitted to a run are a set, each named once (the directory
  lists every primary email once, and the filter keeps that,
  \<open>filterUsers_distinct\<close>). For every such input and a batch size of at least one, as
  a validated configuration has it (\<open>validateConfig_batch_size\<close>), the run returns a
  result, and the result is a total partition of the input: every identity of the input
  is in exactly one of \<open>processed\<close>, \<open>skipped\<close> and the keys of \<open>failed\<close>, nothing else
  is, and the three sizes add up to the length of the input. Without a batch size the
  run aborts with a configuration error before any call is made.
\<close>

theorem run_partitions_distinct_identities:
  assumes "distinct identities"
  shows "(0 < apiNat (BATCH_SIZE a) \<longrightarrow>
           (\<exists>res w' calls.
              processUsers p a dry identities w = (Inr res, w', calls)
            \<and> length (processed res) + length (skipped res) + length (failed res)
                = length identities
            \<and> set (processed res) \<union> set (skipped res) \<union> fst ` set (failed res)
                = set identities
            \<and> distinct (processed res @ skipped res @ map fst (failed res))))
       \<and> (apiNat (BATCH_SIZE a) = 0 \<longrightarrow>
           processUsers p a dry identities w = (Inl (Error ''ConfigurationError''), w, []))"
proof (intro conjI impI)
  assume "0 < apiNat (BATCH_SIZE a)"
  with assms show "\<exists>res w' calls.
              processUsers p a dry identities w = (Inr res, w', calls)
            \<and> length (processed res) + length (skipped res) + length (failed res)
                = length identities
            \<and> set (processed res) \<union> set (skipped res) \<union> fst ` set (failed res)
                = set identities
            \<and> distinct (processed res @ skipped res @ map fst (failed res))"
    by (rule partition_of_distinct)
next
  assume "apiNat (BATCH_SIZE a) = 0"
  then show "processUsers p a dry identities w = (Inl (Error ''ConfigurationError''), w, [])"
    by (simp add: processUsers_def)
qed

theorem run_partitions_distinct_identities_witness:
  "distinct [''a@x.com'', ''b@x.com'', ''c@x.com'']
   \<and> (\<exists>res w' calls.
         processUsers selectiveProvider defaultApi False
             [''a@x.com'', ''b@x.com'', ''c@x.com''] bUpToDate = (Inr res, w', calls)
       \<and> length (processed res) + length (skipped res) + length (failed res)
           = length [''a@x.com'', ''b@x.com'', ''c@x.com'']
       \<and> set (processed res) \<union> set (skipped res) \<union> fst ` set (failed res)
           = set [''a@x.com'', ''b@x.com'', ''c@x.com'']
       \<and> distinct (processed res @ skipped res @ map fst (failed res)))
   \<and> fst (processUsers selectiveProvider defaultApi False
             [''a@x.com'', ''b@x.com'', ''c@x.com''] bUpToDate)
       = Inr \<lparr>processed = [''a@x.com''], skipped = [''b@x.com''],
              failed = [(''c@x.com'', ''Access denied'')]\<rparr>"
proof -
  have d: "distinct [''a@x.com'', ''b@x.com'', ''c@x.com'']" by simp
  have n: "0 < apiNat (BATCH_SIZE defaultApi)" by (simp add: apiNat_defaultApi)
  have run: "fst (processUsers selectiveProvider defaultApi False
             [''a@x.com'', ''b@x.com'', ''c@x.com''] bUpToDate)
       = Inr \<lparr>processed = [''a@x.com''], skipped = [''b@x.com''],
              failed = [(''c@x.com'', ''Access denied'')]\<rparr>"
    by (simp add: processUsers_def apiNat_defaultApi batches_single processIdentity_def
          writeWithRetry_success selectiveProvider_def mailboxProvider_def emptyResult_def
          bUpToDate_def)
  from run_partitions_distinct_identities
         [OF d, where a = defaultApi and p = selectiveProvider and dry = False
            and w = bUpToDate] n
  have inst: "\<exists>res w' calls.
         processUsers selectiveProvider defaultApi False
             [''a@x.com'', ''b@x.com'', ''c@x.com''] bUpToDate = (Inr res, w', calls)
       \<and> length (processed res) + length (skipped res) + length (failed res)
           = length [''a@x.com'', ''b@x.com'', ''c@x.com'']
       \<and> set (processed res) \<union> set (skipped res) \<union> fst ` set (failed res)
           = set [''a@x.com'', ''b@x.com'', ''c@x.com'']
       \<and> distinct (processed res @ skipped res @ map fst (failed res))"
    by blast
  from d inst run show ?thesis by (intro conjI)
qed

lemma writeCount_simps:
  "writeCount [] = 0"
  "writeCount (xs @ ys) = writeCount xs + writeCount ys"
  "writeCount (Sleep ms # xs) = writeCount xs"
  "writeCount (ReadSignature email # xs) = writeCount xs"
  by (simp_all add: writeCount_def)

lemma processIdentity_dry:
  "processIdentity p True retries delay email w
     = (if needsUpdate p (readSignature p w email) (renderSignature p email)
        then Processed else Skipped, w, [ReadSignature email])"
  by (simp add: processIdentity_def)

lemma processBatch_dry:
  "processBatch p True retries delay emails res w
     = (res\<lparr>processed := processed res
                  @ filter (\<lambda>email. needsUpdate p (readSignature p w email) (renderSignature p email))
                      emails,
            skipped := skipped res
                  @ filter (\<lambda>email. \<not> needsUpdate p (readSignature p w email) (renderSignature p email))
                      emails\<rparr>,
        w, map ReadSignature emails)"
  by (induction emails arbitrary: res) (simp_all add: processIdentity_dry)

lemma writeCount_reads: "writeCount (map ReadSignature emails) = 0"
  by (simp add: writeCount_def filter_empty_conv)

lemma runBatches_dry:
  "fst (runBatches p True retries delay batchDelay bs res w)
     = res\<lparr>processed := processed res
                  @ filter (\<lambda>email. needsUpdate p (readSignature p w email) (renderSignature p email))
                      (concat bs),
            skipped := skipped res
                  @ filter (\<lambda>email. \<not> needsUpdate p (readSignature p w email) (renderSignature p email))
                      (concat bs)\<rparr>
   \<and> fst (snd (runBatches p True retries delay batchDelay bs res w)) = w
   \<and> writeCount (snd (snd (runBatches p True retries delay batchDelay bs res w))) = 0"
proof (induction bs arbitrary: res)
  case Nil
  then show ?case by (simp add: writeCount_simps)
next
  case (Cons b bs)
  show ?case
  proof (cases bs)
    case Nil
    then show ?thesis by (simp add: processBatch_dry writeCount_reads)
  next
    case tail: (Cons b' bs')
    define res1 where "res1 = res\<lparr>processed := processed res
                  @ filter (\<lambda>email. needsUpdate p (readSignature p w email) (renderSignature p email)) b,
            skipped := skipped res
                  @ filter (\<lambda>email. \<not> needsUpdate p (readSignature p w email) (renderSignature p email)) b\<rparr>"
    obtain res2 w2 calls2
      where rest: "runBatches p True retries delay batchDelay bs res1 w = (res2, w2, calls2)"
      by (cases "runBatches p True retries delay batchDelay bs res1 w") auto
    from Cons.IH [of res1]
    have ih: "res2 = res1\<lparr>processed := processed res1
                  @ filter (\<lambda>email. needsUpdate p (readSignature p w email) (renderSignature p email))
                      (concat bs),
            skipped := skipped res1
                  @ filter (\<lambda>email. \<not> needsUpdate p (readSignature p w email) (renderSignature p email))
                      (concat bs)\<rparr>"
      "w2 = w" "writeCount calls2 = 0"
      unfolding rest by simp_all
    have first: "processBatch p True retries delay b res w = (res1, w, map ReadSignature b)"
      by (simp add: processBatch_dry res1_def)
    have "runBatches p True retries delay batchDelay (b # bs) res w
            = (res2, w2, map ReadSignature b @ Sleep batchDelay # calls2)"
      using rest by (simp add: tail first)
    with ih show ?thesis
      by (simp add: res1_def writeCount_simps writeCount_reads)
  qed
qed

lemma dry_run_calls_no_write:
  "writeCount (snd (snd (processUsers p a True identities w))) = 0"
proof (cases "apiNat (BATCH_SIZE a) = 0")
  case True
  then show ?thesis by (simp add: processUsers_def writeCount_simps)
next
  case False
  obtain res w' calls
    where run: "runBatches p True (apiNat (RETRY_ATTEMPTS a)) (apiNat (RETRY_DELAY a))
                  (apiNat (BATCH_DELAY a)) (batches (apiNat (BATCH_SIZE a)) identities)
                  emptyResult w = (res, w', calls)"
    by (cases "runBatches p True (apiNat (RETRY_ATTEMPTS a)) (apiNat (RETRY_DELAY a))
                 (apiNat (BATCH_DELAY a)) (batches (apiNat (BATCH_SIZE a)) identities)
                 emptyResult w") auto
  from runBatches_dry [of p "apiNat (RETRY_ATTEMPTS a)" "apiNat (RETRY_DELAY a)"
      "apiNat (BATCH_DELAY a)" "batches (apiNat (BATCH_SIZE a)) identities" emptyResult w]
  have "writeCount calls = 0" unfolding run by simp
  then show ?thesis using False run by (simp add: processUsers_def)
qed

text \<open>
  C5: in a dry run the write operation is called zero times and the remote state is
  left as it was. With a batch size of at least one, the identities whose change
  detection finds a needed update are exactly the processed ones, the others are
  skipped, and none fails.
\<close>

theorem dry_run_never_writes:
  "writeCount (snd (snd (processUsers p a True identities w))) = 0
   \<and> fst (snd (processUsers p a True identities w)) = w
   \<and> (0 < apiNat (BATCH_SIZE a) \<longrightarrow>
        fst (processUsers p a True identities w)
          = Inr \<lparr>processed =
                   filter (\<lambda>email. needsUpdate p (readSignature p w email) (renderSignature p email))
                     identities,
                 skipped =
                   filter (\<lambda>email. \<not> needsUpdate p (readSignature p w email) (renderSignature p email))
                     identities,
                 failed = []\<rparr>)"
proof (cases "apiNat (BATCH_SIZE a) = 0")
  case True
  then show ?thesis by (simp add: processUsers_def writeCount_simps)
next
  case False
  then have whole: "concat (batches (apiNat (BATCH_SIZE a)) identities) = identities"
    by (simp add: concat_batches)
  obtain res w' calls
    where run: "runBatches p True (apiNat (RETRY_ATTEMPTS a)) (apiNat (RETRY_DELAY a))
                  (apiNat (BATCH_DELAY a)) (batches (apiNat (BATCH_SIZE a)) identities)
                  emptyResult w = (res, w', calls)"
    by (cases "runBatches p True (apiNat (RETRY_ATTEMPTS a)) (apiNat (RETRY_DELAY a))
                 (apiNat (BATCH_DELAY a)) (batches (apiNat (BATCH_SIZE a)) identities)
                 emptyResult w") auto
  from runBatches_dry [of p "apiNat (RETRY_ATTEMPTS a)" "apiNat (RETRY_DELAY a)"
      "apiNat (BATCH_DELAY a)" "batches (apiNat (BATCH_SIZE a)) identities" emptyResult w]
  have "res = \<lparr>processed =
                   filter (\<lambda>email. needsUpdate p (readSignature p w email) (renderSignature p email))
                     identities,
                 skipped =
                   filter (\<lambda>email. \<not> needsUpdate p (readSignature p w email) (renderSignature p email))
                     identities,
                 failed = []\<rparr>"
    and "w' = w" and "writeCount calls = 0"
    unfolding run whole by (simp_all add: emptyResult_def)
  moreover have "processUsers p a True identities w = (Inr res, w', calls)"
    using False run by (simp add: processUsers_def)
  ultimately show ?thesis by simp
qed

theorem dry_run_never_writes_witness:
  "0 < apiNat (BATCH_SIZE defaultApi)
   \<and> processUsers mailboxProvider defaultApi True [''a@x.com'', ''b@x.com''] bUpToDate
      = (Inr \<lparr>processed = [''a@x.com''], skipped = [''b@x.com''], failed = []\<rparr>,
         bUpToDate, [ReadSignature ''a@x.com'', ReadSignature ''b@x.com''])
   \<and> writeCount [ReadSignature ''a@x.com'', ReadSignature ''b@x.com''] = 0
   \<and> fst (processUsers mailboxProvider defaultApi False [''a@x.com'', ''b@x.com''] bUpToDate)
      = Inr \<lparr>processed = [''a@x.com''], skipped = [''b@x.com''], failed = []\<rparr>
   \<and> writeCount
         (snd (snd (processUsers mailboxProvider defaultApi False [''a@x.com'', ''b@x.com'']
                      bUpToDate))) = 1"
proof -
  have n: "0 < apiNat (BATCH_SIZE defaultApi)" by (simp add: apiNat_defaultApi)
  have calls: "snd (snd (processUsers mailboxProvider defaultApi True [''a@x.com'', ''b@x.com'']
                      bUpToDate))
                 = [ReadSignature ''a@x.com'', ReadSignature ''b@x.com'']"
    by (simp add: processUsers_def apiNat_defaultApi batches_single processIdentity_dry
          mailboxProvider_def bUpToDate_def)
  have live: "processUsers mailboxProvider defaultApi False [''a@x.com'', ''b@x.com''] bUpToDate
      = (Inr \<lparr>processed = [''a@x.com''], skipped = [''b@x.com''], failed = []\<rparr>,
         [(''b@x.com'', ''Regards, b@x.com''), (''a@x.com'', ''Regards, a@x.com'')],
         [ReadSignature ''a@x.com'', AcquireWriteCredential ''a@x.com'',
          WriteSignature ''a@x.com'' ''Regards, a@x.com'', ReadSignature ''b@x.com''])"
    by (simp add: processUsers_def apiNat_defaultApi batches_single processIdentity_def
          writeWithRetry_success mailboxProvider_def emptyResult_def bUpToDate_def)
  have needs: "filter (\<lambda>email. needsUpdate mailboxProvider
                     (readSignature mailboxProvider bUpToDate email)
                     (renderSignature mailboxProvider email)) [''a@x.com'', ''b@x.com'']
                 = [''a@x.com'']"
       "filter (\<lambda>email. \<not> needsUpdate mailboxProvider
                     (readSignature mailboxProvider bUpToDate email)
                     (renderSignature mailboxProvider email)) [''a@x.com'', ''b@x.com'']
                 = [''b@x.com'']"
    by (simp_all add: mailboxProvider_def bUpToDate_def)
  from dry_run_never_writes [of mailboxProvider defaultApi "[''a@x.com'', ''b@x.com'']" bUpToDate]
    n needs calls
  have dry: "processUsers mailboxProvider defaultApi True [''a@x.com'', ''b@x.com''] bUpToDate
      = (Inr \<lparr>processed = [''a@x.com''], skipped = [''b@x.com''], failed = []\<rparr>,
         bUpToDate, [ReadSignature ''a@x.com'', ReadSignature ''b@x.com''])"
    by (simp add: prod_eq_iff)
  from n dry live show ?thesis by (simp add: writeCount_def)
qed

lemma validateConfig_keeps_execution:
  "validateConfig cfg = Inr cfg' \<Longrightarrow> EXECUTION cfg = Some x \<Longrightarrow> EXECUTION cfg' = Some x"
  by (auto simp: validateConfig_def split: option.splits)

text \<open>
  The dry run at the level of \<open>runSignatureManager\<close>: when \<open>CONFIG.EXECUTION.dryRun\<close> is
  true, none of its calls is a write.
\<close>

lemma runSignatureManager_dry_run:
  assumes "EXECUTION cfg = Some x" "dryRun x"
  shows "writeCount (fst (snd (snd (runSignatureManager e p cfg w)))) = 0"
proof (cases "validateConfig cfg")
  case (Inl err)
  then show ?thesis
    by (cases err) (simp add: runSignatureManager_def writeCount_simps)
next
  case (Inr cfg')
  from validateConfig_keeps_execution [OF Inr assms(1)]
  have x: "EXECUTION cfg' = Some x" .
  have dry: "writeCount calls = 0"
    if "processUsers p a True allowed w = (r, w', calls)" for a allowed r w' calls
    using dry_run_calls_no_write [of p a allowed w] that by simp
  show ?thesis
    using Inr x assms(2)
    by (auto simp: runSignatureManager_def writeCount_simps dest: dry
          split: option.splits sum.splits prod.splits error.splits)
qed

lemma filterUsers_distinct:
  "distinct (map primaryEmail us) \<Longrightarrow> distinct (filterUsers c us)"
  by (simp add: filterUsers_def distinct_map_filter)

lemma validateConfig_batch_size:
  assumes "validateConfig cfg = Inr cfg'" "API cfg' = Some a"
  shows "0 < apiNat (BATCH_SIZE a)"
proof -
  from assms have api: "API cfg = Some a" and range: "rangeChecks a = None"
    by (auto simp: validateConfig_def split: option.splits)
  from assms(1) have "firstMissing cfg required = None"
    by (auto simp: validateConfig_def split: option.splits)
  from firstMissing_None [OF this, of "''API.BATCH_SIZE''"]
  have "truthy (getPath cfg ''API.BATCH_SIZE'')" by (simp add: required_def)
  with api range show ?thesis
    by (auto simp: getPath_def apiField_def numVal_def rangeChecks_def js_lt_def apiNat_def
          split: option.splits if_splits)
qed

text \<open>
  The partition at the level of the run: when \<open>runSignatureManager\<close> ends with
  \<open>SUCCESS\<close>, its result is the one \<open>processUsers\<close> gave for the allowed users of the one
  page fetched, and it is a partition of them when the emails of that page are
  distinct.
\<close>

lemma runSignatureManager_success:
  assumes "runSignatureManager e p cfg w = (SUCCESS d res, urls, calls, w')"
  shows "\<exists>cfg' c a us.
           validateConfig cfg = Inr cfg' \<and> CLIENT cfg' = Some c \<and> API cfg' = Some a
         \<and> fetchUsers e c = (Inr us, urls)
         \<and> processUsers p a d (filterUsers c us) w = (Inr res, w', calls)"
  using assms
  by (auto simp: runSignatureManager_def getAllowedUsers_def
        split: sum.splits option.splits prod.splits error.splits if_splits)

lemma runSignatureManager_partition:
  assumes "runSignatureManager e p cfg w = (SUCCESS d res, urls, calls, w')"
  shows "\<exists>c us. fetchUsers e c = (Inr us, urls)
         \<and> (distinct (map primaryEmail us) \<longrightarrow>
              length (processed res) + length (skipped res) + length (failed res)
                = length (filterUsers c us)
            \<and> set (processed res) \<union> set (skipped res) \<union> fst ` set (failed res)
                = set (filterUsers c us)
            \<and> distinct (processed res @ skipped res @ map fst (failed res)))"
proof -
  from runSignatureManager_success [OF assms] obtain cfg' c a us
    where v: "validateConfig cfg = Inr cfg'" "API cfg' = Some a"
      and f: "fetchUsers e c = (Inr us, urls)"
      and r: "processUsers p a d (filterUsers c us) w = (Inr res, w', calls)"
    by blast
  have n: "0 < apiNat (BATCH_SIZE a)" using v by (rule validateConfig_batch_size)
  have "length (processed res) + length (skipped res) + length (failed res)
                = length (filterUsers c us)
            \<and> set (processed res) \<union> set (skipped res) \<union> fst ` set (failed res)
                = set (filterUsers c us)
            \<and> distinct (processed res @ skipped res @ map fst (failed res))"
    if "distinct (map primaryEmail us)"
    using partition_of_distinct [OF filterUsers_distinct [OF that, of c] n, of p d w] r by auto
  with f show ?thesis by blast
qed

end
